theory Spec2Isabelle
  imports Complex_Main "HOL-Library.Word" "HOL-Library.Sublist"
begin

section \<open>Strings and the canvas text measurer\<close>

text \<open>
  A JavaScript string is a sequence of 16-bit code units. Numbers are IEEE doubles in
  the program; they are modelled here as exact reals, so rounding is not part of the
  model. Pixel dimensions of an image are unsigned integers of the DOM and are modelled
  as naturals.
\<close>

type_synonym codeUnit = "16 word"
type_synonym jsstring = "codeUnit list"

definition space :: codeUnit where
  "space = 32"

text \<open>\<^verbatim>\<open>text.split(' ')\<close>: the pieces between single space code units; the empty
  string yields one empty piece.\<close>

fun splitSpace :: "jsstring \<Rightarrow> jsstring list" where
  "splitSpace [] = [[]]"
| "splitSpace (c # cs) =
     (if c = space then [] # splitSpace cs
      else (case splitSpace cs of [] \<Rightarrow> [[c]] | w # ws \<Rightarrow> (c # w) # ws))"

text \<open>\<^verbatim>\<open>lines.join(' ')\<close>.\<close>

fun joinSpace :: "jsstring list \<Rightarrow> jsstring" where
  "joinSpace [] = []"
| "joinSpace [l] = l"
| "joinSpace (l # ls) = l @ space # joinSpace ls"

text \<open>The white space and line terminator code units that \<^verbatim>\<open>String.prototype.trim\<close>
  strips.\<close>

definition isWhiteSpace :: "codeUnit \<Rightarrow> bool" where
  "isWhiteSpace c \<longleftrightarrow>
     c = 9 \<or> c = 10 \<or> c = 11 \<or> c = 12 \<or> c = 13 \<or> c = 32 \<or> c = 160 \<or> c = 5760 \<or>
     (8192 \<le> c \<and> c \<le> 8202) \<or> c = 8232 \<or> c = 8233 \<or> c = 8239 \<or> c = 8287 \<or>
     c = 12288 \<or> c = 65279"

definition trim :: "jsstring \<Rightarrow> jsstring" where
  "trim s = rev (dropWhile isWhiteSpace (rev (dropWhile isWhiteSpace s)))"

text \<open>
  The loop of \<^verbatim>\<open>wrapText\<close> over \<^verbatim>\<open>words\<close>, with the two mutable variables
  \<^verbatim>\<open>lines\<close> and \<^verbatim>\<open>currentLine\<close> passed along. The argument \<open>measureText\<close> stands for
  \<^verbatim>\<open>context.measureText(s).width\<close> under the font the context holds at the call. A
  string is truthy exactly when it is not empty.
\<close>

primrec wrapLoop ::
  "(jsstring \<Rightarrow> real) \<Rightarrow> real \<Rightarrow> jsstring list \<Rightarrow> jsstring list \<Rightarrow> jsstring \<Rightarrow> jsstring list"
where
  "wrapLoop measureText maxWidth [] lines currentLine =
     (if currentLine \<noteq> [] then lines @ [currentLine] else lines)"
| "wrapLoop measureText maxWidth (word # words) lines currentLine =
     (let testLine = (if currentLine \<noteq> [] then currentLine @ space # word else word);
          testWidth = measureText testLine
      in if testWidth > maxWidth \<and> currentLine \<noteq> []
         then wrapLoop measureText maxWidth words (lines @ [currentLine]) word
         else wrapLoop measureText maxWidth words lines testLine)"

definition wrapText :: "(jsstring \<Rightarrow> real) \<Rightarrow> jsstring \<Rightarrow> real \<Rightarrow> jsstring list" where
  "wrapText measureText text maxWidth =
     (if text = [] then [] else wrapLoop measureText maxWidth (splitSpace text) [] [])"


section \<open>The font-fit loop of drawImageWithTextOverlay\<close>

text \<open>
  The value of \<^verbatim>\<open>ctx.font\<close>: always bold, a pixel size and one of the two family lists
  the program uses.
\<close>

datatype fontFamily = InterArialSansSerif | NotoSansTeluguSansSerif

datatype font = BoldPx real fontFamily

text \<open>
  What the \<^verbatim>\<open>onload\<close> handler closes over: the two texts, the pixel size of the loaded
  image (the canvas is resized to it) and the text measurer of the 2D context.
\<close>

record overlay =
  engText :: jsstring
  telText :: jsstring
  imgWidth :: nat
  imgHeight :: nat
  ctxMeasureText :: "font \<Rightarrow> jsstring \<Rightarrow> real"

definition hasEnglish :: "overlay \<Rightarrow> bool" where
  "hasEnglish ov \<longleftrightarrow> engText ov \<noteq> [] \<and> trim (engText ov) \<noteq> []"

definition hasTelugu :: "overlay \<Rightarrow> bool" where
  "hasTelugu ov \<longleftrightarrow> telText ov \<noteq> [] \<and> trim (telText ov) \<noteq> []"

definition textMaxWidth :: "overlay \<Rightarrow> real" where
  "textMaxWidth ov = real (imgWidth ov) * 0.85"

definition textX :: "overlay \<Rightarrow> real" where
  "textX ov = real (imgWidth ov) / 2"

definition availableHeightForText :: "overlay \<Rightarrow> real" where
  "availableHeightForText ov = real (imgHeight ov) * 0.85"

definition minFontSize :: "overlay \<Rightarrow> real" where
  "minFontSize ov = max 8 (real (imgWidth ov) / 70)"

definition interTextPadding :: "overlay \<Rightarrow> real" where
  "interTextPadding ov = max 15 (real (imgHeight ov) * 0.03)"

definition maxIterations :: nat where
  "maxIterations = 20"

text \<open>The mutable locals of the handler.\<close>

record layout =
  englishFontSize :: real
  teluguFontSize :: real
  englishLines :: "jsstring list"
  teluguLines :: "jsstring list"
  englishLineHeight :: real
  teluguLineHeight :: real
  englishBlockHeight :: real
  teluguBlockHeight :: real
  warned :: bool

definition initialLayout :: "overlay \<Rightarrow> layout" where
  "initialLayout ov =
     \<lparr> englishFontSize =
         max (minFontSize ov) (min (real (imgWidth ov) / 18) (real (imgHeight ov) / 15)),
       teluguFontSize =
         max (minFontSize ov) (min (real (imgWidth ov) / 16) (real (imgHeight ov) / 12)),
       englishLines = [], teluguLines = [],
       englishLineHeight = 0, teluguLineHeight = 0,
       englishBlockHeight = 0, teluguBlockHeight = 0,
       warned = False \<rparr>"

text \<open>
  Setting the line heights and wrapping both texts at the current font sizes. The
  program does this at the head of every iteration and once more after the loop, with
  the same statements.
\<close>

definition measureBlocks :: "overlay \<Rightarrow> layout \<Rightarrow> layout" where
  "measureBlocks ov st =
     (let eLH = englishFontSize st * 1.2;
          tLH = teluguFontSize st * 1.2;
          eLines = (if hasEnglish ov
                    then wrapText (ctxMeasureText ov (BoldPx (englishFontSize st) InterArialSansSerif))
                           (engText ov) (textMaxWidth ov)
                    else []);
          eBH = (if hasEnglish ov then real (length eLines) * eLH else 0);
          tLines = (if hasTelugu ov
                    then wrapText (ctxMeasureText ov (BoldPx (teluguFontSize st) NotoSansTeluguSansSerif))
                           (telText ov) (textMaxWidth ov)
                    else []);
          tBH = (if hasTelugu ov then real (length tLines) * tLH else 0)
      in st\<lparr> englishLineHeight := eLH, teluguLineHeight := tLH,
              englishLines := eLines, englishBlockHeight := eBH,
              teluguLines := tLines, teluguBlockHeight := tBH \<rparr>)"

definition totalTextHeight :: "overlay \<Rightarrow> layout \<Rightarrow> real" where
  "totalTextHeight ov st =
     englishBlockHeight st +
     (if hasEnglish ov \<and> hasTelugu ov \<and> length (englishLines st) > 0 \<and> length (teluguLines st) > 0
      then interTextPadding ov else 0) +
     teluguBlockHeight st"

text \<open>The three statements at the end of the loop body: the two shrinks and the warning.\<close>

definition shrinkFonts :: "overlay \<Rightarrow> nat \<Rightarrow> layout \<Rightarrow> layout" where
  "shrinkFonts ov i st =
     (let st1 = (if hasEnglish ov \<and> englishFontSize st > minFontSize ov
                 then st\<lparr> englishFontSize := max (minFontSize ov) (englishFontSize st * 0.9) \<rparr>
                 else st);
          st2 = (if hasTelugu ov \<and> teluguFontSize st1 > minFontSize ov
                 then st1\<lparr> teluguFontSize := max (minFontSize ov) (teluguFontSize st1 * 0.9) \<rparr>
                 else st1)
      in if i = maxIterations - 1 then st2\<lparr> warned := True \<rparr> else st2)"

datatype 'a step = Break 'a | Continue 'a

definition loopBody :: "overlay \<Rightarrow> nat \<Rightarrow> layout \<Rightarrow> layout step" where
  "loopBody ov i st =
     (let st1 = measureBlocks ov st
      in if totalTextHeight ov st1 \<le> availableHeightForText ov then Break st1
         else if englishFontSize st1 \<le> minFontSize ov \<and> teluguFontSize st1 \<le> minFontSize ov
         then Break st1
         else Continue (shrinkFonts ov i st1))"

function fitLoop :: "overlay \<Rightarrow> nat \<Rightarrow> layout \<Rightarrow> layout" where
  "fitLoop ov i st =
     (if i < maxIterations
      then (case loopBody ov i st of Break s \<Rightarrow> s | Continue s \<Rightarrow> fitLoop ov (i + 1) s)
      else st)"
  by pat_completeness auto
termination
  by (relation "measure (\<lambda>(ov, i, st). maxIterations - i)") auto

text \<open>
  The layouts the loop passes through: the layout at the head of every iteration that
  runs, then the layout the loop leaves.
\<close>

function fitTrace :: "overlay \<Rightarrow> nat \<Rightarrow> layout \<Rightarrow> layout list" where
  "fitTrace ov i st =
     (if i < maxIterations
      then (case loopBody ov i st of
              Break s \<Rightarrow> [st, s]
            | Continue s \<Rightarrow> st # fitTrace ov (i + 1) s)
      else [st])"
  by pat_completeness auto
termination
  by (relation "measure (\<lambda>(ov, i, st). maxIterations - i)") auto

text \<open>The layout that is painted: the loop, then the wrap at the settled sizes.\<close>

definition solveLayout :: "overlay \<Rightarrow> layout" where
  "solveLayout ov = measureBlocks ov (fitLoop ov 0 (initialLayout ov))"

definition totalActualTextHeight :: "overlay \<Rightarrow> real" where
  "totalActualTextHeight ov = totalTextHeight ov (solveLayout ov)"


section \<open>Painting the text and settling the promise\<close>

text \<open>
  The canvas is modelled by its pixel size and the drawing calls made on it, in order.
  A text call records the font and, for a stroke, the line width in force. Colours and
  the drop shadow are the same for every text call and are left out.
\<close>

datatype drawOp =
    DrawImage jsstring
  | StrokeText font real jsstring real real
  | FillText font jsstring real real

record canvasState =
  canvasWidth :: nat
  canvasHeight :: nat
  drawn :: "drawOp list"

text \<open>One of the two \<^verbatim>\<open>for\<close> loops that stroke and fill the lines of a block around
  \<^verbatim>\<open>currentY\<close>.\<close>

definition drawLines ::
  "font \<Rightarrow> real \<Rightarrow> jsstring list \<Rightarrow> real \<Rightarrow> real \<Rightarrow> real \<Rightarrow> drawOp list" where
  "drawLines fnt lineWidth lines x currentY lineHeight =
     concat (map (\<lambda>i.
        let lineY = currentY - ((real (length lines) - 1) / 2 - real i) * lineHeight
        in [StrokeText fnt lineWidth (lines ! i) x lineY, FillText fnt (lines ! i) x lineY])
       [0..<length lines])"

definition paintText :: "overlay \<Rightarrow> layout \<Rightarrow> drawOp list" where
  "paintText ov st =
     (let totalActual = totalTextHeight ov st;
          currentY0 = (real (imgHeight ov) - totalActual) / 2;
          english = hasEnglish ov \<and> length (englishLines st) > 0;
          telugu = hasTelugu ov \<and> length (teluguLines st) > 0;
          centreE = currentY0 + englishBlockHeight st / 2;
          opsE = (if english
                  then drawLines (BoldPx (englishFontSize st) InterArialSansSerif)
                         (max 1 (min 4 (englishFontSize st / 18)))
                         (englishLines st) (textX ov) centreE (englishLineHeight st)
                  else []);
          currentY1 = (if english
                       then centreE + englishBlockHeight st / 2 +
                            (if telugu then interTextPadding ov else 0)
                       else if telugu then currentY0 + teluguBlockHeight st / 2
                       else currentY0);
          currentY2 = (if \<not> hasEnglish ov \<or> length (englishLines st) = 0 then currentY1
                       else currentY1 + teluguBlockHeight st / 2);
          opsT = (if telugu
                  then drawLines (BoldPx (teluguFontSize st) NotoSansTeluguSansSerif)
                         (max 1 (min 4 (teluguFontSize st / 18)))
                         (teluguLines st) (textX ov) currentY2 (teluguLineHeight st)
                  else [])
      in opsE @ opsT)"

text \<open>
  The browser as the function sees it: the canvas the ref holds (if any), the 2D context
  it hands out (if any, given by its text measurer), its PNG encoder, and what the image
  element does once \<^verbatim>\<open>img.src\<close> is set to a URL: it calls \<^verbatim>\<open>onload\<close> with the pixel size
  of the image, it calls \<^verbatim>\<open>onerror\<close>, or it calls neither (a load that never completes).
\<close>

datatype imageEvent = OnLoad nat nat | OnError | NoEvent

record canvasElement =
  getContext2d :: "(font \<Rightarrow> jsstring \<Rightarrow> real) option"
  toDataURL :: "canvasState \<Rightarrow> jsstring"

record browser =
  canvasRef :: "canvasElement option"
  imageEvent :: "jsstring \<Rightarrow> imageEvent"

datatype overlayError = CanvasElementNotFound | FailedToGetCanvasContext | FailedToLoadBaseImage

definition composeCanvas :: "jsstring \<Rightarrow> overlay \<Rightarrow> canvasState" where
  "composeCanvas baseImageUrl ov =
     \<lparr> canvasWidth = imgWidth ov, canvasHeight = imgHeight ov,
       drawn = DrawImage baseImageUrl # paintText ov (solveLayout ov) \<rparr>"

text \<open>
  The state the returned promise ends in. \<^verbatim>\<open>reject\<close> and \<^verbatim>\<open>resolve\<close> are called only in
  the two early exits and in the two handlers, so when the image element calls neither
  handler the promise stays pending.
\<close>

datatype promise = Rejected overlayError | Resolved jsstring | Pending

definition drawImageWithTextOverlay ::
  "browser \<Rightarrow> jsstring \<Rightarrow> jsstring \<Rightarrow> jsstring \<Rightarrow> promise" where
  "drawImageWithTextOverlay br baseImageUrl eng tel =
     (case canvasRef br of
        None \<Rightarrow> Rejected CanvasElementNotFound
      | Some canvas \<Rightarrow>
         (case getContext2d canvas of
            None \<Rightarrow> Rejected FailedToGetCanvasContext
          | Some ctx \<Rightarrow>
             (case imageEvent br baseImageUrl of
                OnError \<Rightarrow> Rejected FailedToLoadBaseImage
              | NoEvent \<Rightarrow> Pending
              | OnLoad w h \<Rightarrow>
                  Resolved (toDataURL canvas
                    (composeCanvas baseImageUrl
                       \<lparr> engText = eng, telText = tel, imgWidth = w, imgHeight = h,
                         ctxMeasureText = ctx \<rparr>)))))"

section \<open>extractPosterDetailsFromPrompt\<close>

text \<open>
  Values that \<^verbatim>\<open>JSON.parse\<close> can return. Reading a property gives \<open>None\<close> for
  \<^verbatim>\<open>undefined\<close>; reading a property of \<^verbatim>\<open>null\<close> throws.
\<close>

datatype jsvalue =
    JNull
  | JBool bool
  | JNumber real
  | JString jsstring
  | JArray "jsvalue list"
  | JObject "jsstring \<Rightarrow> jsvalue option"

datatype languagePreference = English | Telugu | Both














section \<open>Notions the properties are stated with\<close>

text \<open>A text with no leading, trailing or consecutive space.\<close>

fun adjacentSpaces :: "jsstring \<Rightarrow> bool" where
  "adjacentSpaces (a # b # cs) = ((a = space \<and> b = space) \<or> adjacentSpaces (b # cs))"
| "adjacentSpaces _ = False"

definition tidy :: "jsstring \<Rightarrow> bool" where
  "tidy s \<longleftrightarrow> s = [] \<or> (hd s \<noteq> space \<and> last s \<noteq> space \<and> \<not> adjacentSpaces s)"

text \<open>What one iteration may do to the two font sizes: leave a size as it is, or replace
  it by 0.9 times itself floored at the minimum, the latter only for a block that has
  text and is above the floor.\<close>

definition sizeStep :: "overlay \<Rightarrow> layout \<Rightarrow> layout \<Rightarrow> bool" where
  "sizeStep ov a b \<longleftrightarrow>
     englishFontSize b \<le> englishFontSize a \<and> teluguFontSize b \<le> teluguFontSize a \<and>
     (englishFontSize b = englishFontSize a \<or>
      (hasEnglish ov \<and> minFontSize ov < englishFontSize a \<and>
       englishFontSize b = max (minFontSize ov) (englishFontSize a * 0.9))) \<and>
     (teluguFontSize b = teluguFontSize a \<or>
      (hasTelugu ov \<and> minFontSize ov < teluguFontSize a \<and>
       teluguFontSize b = max (minFontSize ov) (teluguFontSize a * 0.9)))"

text \<open>
  The layout rule in the words of the specification: a block whose top edge is at
  \<open>blockTop\<close> has its lines, of height 1.2 times the font size, placed symmetrically around
  the vertical centre of the block (\<open>lineY n centre lineHeight i\<close> is the height of
  line \<open>i\<close> of \<open>n\<close>); every line is stroked, then filled.
\<close>

definition lineY :: "nat \<Rightarrow> real \<Rightarrow> real \<Rightarrow> nat \<Rightarrow> real" where
  "lineY n centre lineHeight i = centre - ((real n - 1) / 2 - real i) * lineHeight"

definition centredBlock ::
  "font \<Rightarrow> real \<Rightarrow> jsstring list \<Rightarrow> real \<Rightarrow> real \<Rightarrow> real \<Rightarrow> drawOp list" where
  "centredBlock fnt lineWidth lines x blockTop fontSize =
     concat (map (\<lambda>i.
        let lineHeight = fontSize * 1.2;
            centre = blockTop + real (length lines) * lineHeight / 2;
            y = lineY (length lines) centre lineHeight i
        in [StrokeText fnt lineWidth (lines ! i) x y, FillText fnt (lines ! i) x y])
       [0..<length lines])"

text \<open>The loop invariant at the head of iteration \<open>i\<close>: both sizes are at or above
  the floor, and the size of a block that has text is at most its initial size shrunk
  \<open>i\<close> times.\<close>

definition sizesOk :: "overlay \<Rightarrow> nat \<Rightarrow> layout \<Rightarrow> bool" where
  "sizesOk ov i st \<longleftrightarrow>
     minFontSize ov \<le> englishFontSize st \<and> minFontSize ov \<le> teluguFontSize st \<and>
     (hasEnglish ov \<longrightarrow>
        englishFontSize st \<le> max (minFontSize ov) (englishFontSize (initialLayout ov) * 0.9 ^ i)) \<and>
     (hasTelugu ov \<longrightarrow>
        teluguFontSize st \<le> max (minFontSize ov) (teluguFontSize (initialLayout ov) * 0.9 ^ i))"

section \<open>Sample inputs\<close>

text \<open>Three text measurers: one code unit is one pixel wide; one code unit is as wide as
  the font size, or twenty times that; and a measurer that finds a single string wide.\<close>

definition unitWidth :: "jsstring \<Rightarrow> real" where
  "unitWidth s = real (length s)"

fun fixedPitch :: "font \<Rightarrow> jsstring \<Rightarrow> real" where
  "fixedPitch (BoldPx z fam) s = z * real (length s)"

fun wideGlyphs :: "font \<Rightarrow> jsstring \<Rightarrow> real" where
  "wideGlyphs (BoldPx z fam) s = 20 * z * real (length s)"

definition oneWideWord :: "jsstring \<Rightarrow> real" where
  "oneWideWord s = (if s = [98, 98] then 100 else 0)"

text \<open>No English text and twelve one-letter Telugu words on a 180 by 135 image.\<close>

definition longTeluguOnly :: overlay where
  "longTeluguOnly =
     \<lparr> engText = [],
       telText = [97, 32, 97, 32, 97, 32, 97, 32, 97, 32, 97, 32, 97, 32, 97, 32, 97, 32, 97, 32,
                  97, 32, 97],
       imgWidth = 180, imgHeight = 135, ctxMeasureText = wideGlyphs \<rparr>"

text \<open>\<^verbatim>\<open>"Hi all"\<close> and \<^verbatim>\<open>"ab cd"\<close> on a 320 by 180 image.\<close>

definition smallPoster :: overlay where
  "smallPoster =
     \<lparr> engText = [72, 105, 32, 97, 108, 108], telText = [97, 98, 32, 99, 100],
       imgWidth = 320, imgHeight = 180, ctxMeasureText = fixedPitch \<rparr>"


text \<open>No English text and a Telugu text of a space and a tab.\<close>

definition blankPoster :: overlay where
  "blankPoster =
     \<lparr> engText = [], telText = [32, 9],
       imgWidth = 320, imgHeight = 180, ctxMeasureText = fixedPitch \<rparr>"

text \<open>A browser whose canvas and context exist and whose image loads at 320 by 180; the
  encoder is a stand-in.\<close>

definition pngStub :: "canvasState \<Rightarrow> jsstring" where
  "pngStub c = [112, 110, 103]"

definition loads320x180 :: "jsstring \<Rightarrow> imageEvent" where
  "loads320x180 url = OnLoad 320 180"

definition sampleCanvas :: canvasElement where
  "sampleCanvas = \<lparr> getContext2d = Some fixedPitch, toDataURL = pngStub \<rparr>"

definition sampleBrowser :: browser where
  "sampleBrowser = \<lparr> canvasRef = Some sampleCanvas, imageEvent = loads320x180 \<rparr>"

text \<open>The same browser with an image element that calls neither handler.\<close>

definition neverFires :: "jsstring \<Rightarrow> imageEvent" where
  "neverFires url = NoEvent"

definition hungBrowser :: browser where
  "hungBrowser = \<lparr> canvasRef = Some sampleCanvas, imageEvent = neverFires \<rparr>"

text \<open>The twelve one-letter words as both the English and the Telugu text, on the same
  180 by 135 image.\<close>

definition longBoth :: overlay where
  "longBoth = longTeluguOnly\<lparr> engText := telText longTeluguOnly \<rparr>"





section \<open>Splitting and joining\<close>

lemma splitSpace_not_Nil: "splitSpace s \<noteq> []"
  by (induction s) (auto split: list.splits)

lemma splitSpace_no_space: "w \<in> set (splitSpace s) \<Longrightarrow> space \<notin> set w"
  by (induction s arbitrary: w) (auto split: if_splits list.splits)

lemma splitSpace_single: "space \<notin> set s \<Longrightarrow> splitSpace s = [s]"
  by (induction s) auto

lemma splitSpace_append: "splitSpace (a @ space # b) = splitSpace a @ splitSpace b"
  by (induction a) (auto split: list.splits simp: splitSpace_not_Nil)

lemma joinSpace_Cons: "ls \<noteq> [] \<Longrightarrow> joinSpace (l # ls) = l @ space # joinSpace ls"
  by (cases ls) auto

lemma joinSpace_splitSpace: "joinSpace (splitSpace s) = s"
proof (induction s)
  case Nil
  show ?case by simp
next
  case (Cons c cs)
  show ?case
  proof (cases "c = space")
    case True
    then show ?thesis using Cons by (simp add: joinSpace_Cons splitSpace_not_Nil)
  next
    case False
    obtain w ws where sp: "splitSpace cs = w # ws"
      using splitSpace_not_Nil by (cases "splitSpace cs") auto
    show ?thesis using False Cons sp by (cases ws) auto
  qed
qed

lemma joinSpace_append:
  "xs \<noteq> [] \<Longrightarrow> ys \<noteq> [] \<Longrightarrow> joinSpace (xs @ ys) = joinSpace xs @ space # joinSpace ys"
proof (induction xs rule: joinSpace.induct)
  case 1 then show ?case by simp
next
  case (2 l) then show ?case by (simp add: joinSpace_Cons)
next
  case (3 l v va) then show ?case by simp
qed

lemma joinSpace_concat_split: "joinSpace (concat (map splitSpace ls)) = joinSpace ls"
proof (induction ls rule: joinSpace.induct)
  case 1 show ?case by simp
next
  case (2 l) show ?case by (simp add: joinSpace_splitSpace)
next
  case (3 l v va)
  have ne: "concat (map splitSpace (v # va)) \<noteq> []" by (simp add: splitSpace_not_Nil)
  have "joinSpace (concat (map splitSpace (l # v # va)))
        = joinSpace (splitSpace l @ concat (map splitSpace (v # va)))" by simp
  also have "\<dots> = joinSpace (splitSpace l) @ space # joinSpace (concat (map splitSpace (v # va)))"
    using ne by (rule joinSpace_append[OF splitSpace_not_Nil])
  finally show ?case using 3 by (simp add: joinSpace_splitSpace)
qed

lemma splitSpace_sublist: "w \<in> set (splitSpace s) \<Longrightarrow> sublist w s"
proof (induction s arbitrary: w)
  case Nil then show ?case by simp
next
  case (Cons c cs)
  show ?case
  proof (cases "c = space")
    case True
    with Cons.prems have "w = [] \<or> w \<in> set (splitSpace cs)" by auto
    then show ?thesis using Cons.IH by (auto simp: sublist_Cons_right)
  next
    case False
    obtain v vs where sp: "splitSpace cs = v # vs"
      using splitSpace_not_Nil by (cases "splitSpace cs") auto
    from Cons.prems False sp have "w = c # v \<or> w \<in> set vs" by auto
    then show ?thesis
    proof
      assume w: "w = c # v"
      have "prefix v cs" using sp
      proof (induction cs arbitrary: v vs)
        case Nil then show ?case by simp
      next
        case (Cons a as)
        then show ?case by (auto split: if_splits list.splits)
      qed
      then have "prefix w (c # cs)" using w by simp
      then show ?thesis by (rule prefix_imp_sublist)
    next
      assume "w \<in> set vs"
      then have "w \<in> set (splitSpace cs)" using sp by simp
      then show ?thesis using Cons.IH by (auto simp: sublist_Cons_right)
    qed
  qed
qed

lemma splitSpace_nonempty_word:
  "(\<exists>w \<in> set (splitSpace s). w \<noteq> []) \<longleftrightarrow> (\<exists>c \<in> set s. c \<noteq> space)"
  by (induction s) (auto split: list.splits simp: splitSpace_not_Nil)


lemma splitSpace_tl_empty_word:
  "[] \<in> set (tl (splitSpace s)) \<longleftrightarrow> (s \<noteq> [] \<and> last s = space) \<or> adjacentSpaces s"
proof (induction s)
  case Nil
  show ?case by simp
next
  case (Cons c cs)
  obtain v vs where sp: "splitSpace cs = v # vs"
    using splitSpace_not_Nil[of cs] by (meson neq_Nil_conv)
  have v: "v = [] \<longleftrightarrow> cs = [] \<or> hd cs = space"
    using sp by (cases cs) (auto split: if_splits list.splits)
  show ?case
  proof (cases cs)
    case Nil
    then show ?thesis by simp
  next
    case (Cons b bs)
    then show ?thesis using Cons.IH sp v by (cases "c = space") auto
  qed
qed

lemma splitSpace_empty_word:
  "[] \<in> set (splitSpace s) \<longleftrightarrow> s = [] \<or> hd s = space \<or> last s = space \<or> adjacentSpaces s"
proof -
  obtain v vs where sp: "splitSpace s = v # vs"
    using splitSpace_not_Nil[of s] by (meson neq_Nil_conv)
  have v: "v = [] \<longleftrightarrow> s = [] \<or> hd s = space"
    using sp by (cases s) (auto split: if_splits list.splits)
  have "[] \<in> set (splitSpace s) \<longleftrightarrow> v = [] \<or> [] \<in> set (tl (splitSpace s))"
    using sp by auto
  then show ?thesis using v splitSpace_tl_empty_word[of s] by auto
qed

lemma trim_empty_iff: "trim s = [] \<longleftrightarrow> list_all isWhiteSpace s"
proof -
  let ?d = "dropWhile isWhiteSpace s"
  have 1: "trim s = [] \<longleftrightarrow> (\<forall>x \<in> set ?d. isWhiteSpace x)"
    by (simp add: trim_def)
  have 2: "(\<forall>x \<in> set ?d. isWhiteSpace x) \<longleftrightarrow> ?d = []"
  proof
    assume a: "\<forall>x \<in> set ?d. isWhiteSpace x"
    show "?d = []"
    proof (rule ccontr)
      assume n: "?d \<noteq> []"
      then have "\<not> isWhiteSpace (hd ?d)" by (rule hd_dropWhile)
      moreover have "hd ?d \<in> set ?d" using n by (rule hd_in_set)
      ultimately show False using a by blast
    qed
  next
    assume e: "?d = []"
    show "\<forall>x \<in> set ?d. isWhiteSpace x" unfolding e by simp
  qed
  have 3: "?d = [] \<longleftrightarrow> list_all isWhiteSpace s"
    by (simp add: list_all_iff)
  show ?thesis using 1 2 3 by blast
qed

lemma isWhiteSpace_space: "isWhiteSpace space"
  by (simp add: isWhiteSpace_def space_def)

section \<open>The wrapping loop\<close>

lemma wrapLoop_inv:
  assumes "\<forall>l \<in> set lines. P l" and "cur \<noteq> [] \<longrightarrow> P cur"
    and "\<forall>w \<in> set ws. w \<noteq> [] \<longrightarrow> P w"
    and "\<And>c w. c \<noteq> [] \<Longrightarrow> m (c @ space # w) \<le> W \<Longrightarrow> P (c @ space # w)"
  shows "\<forall>l \<in> set (wrapLoop m W ws lines cur). P l"
  using assms
proof (induction ws arbitrary: lines cur)
  case Nil
  then show ?case by simp
next
  case (Cons word ws)
  show ?case
  proof (cases "cur = []")
    case True
    have "\<forall>l \<in> set (wrapLoop m W ws lines word). P l"
      using Cons.prems by (intro Cons.IH) auto
    then show ?thesis using True by simp
  next
    case False
    show ?thesis
    proof (cases "m (cur @ space # word) > W")
      case True
      have "\<forall>l \<in> set (wrapLoop m W ws (lines @ [cur]) word). P l"
        using Cons.prems False by (intro Cons.IH) auto
      then show ?thesis using True False by simp
    next
      case F2: False
      have "\<forall>l \<in> set (wrapLoop m W ws lines (cur @ space # word)). P l"
        using Cons.prems False F2 by (intro Cons.IH) auto
      then show ?thesis using F2 False by simp
    qed
  qed
qed

lemma wrapLoop_words:
  "\<forall>w \<in> set ws. space \<notin> set w \<Longrightarrow>
   filter (\<lambda>w. w \<noteq> []) (concat (map splitSpace (wrapLoop m W ws lines cur)))
   = filter (\<lambda>w. w \<noteq> []) (concat (map splitSpace lines) @ splitSpace cur @ ws)"
proof (induction ws arbitrary: lines cur)
  case Nil
  then show ?case by simp
next
  case (Cons word ws)
  have w1: "splitSpace word = [word]" using Cons.prems by (simp add: splitSpace_single)
  have rest: "\<forall>w \<in> set ws. space \<notin> set w" using Cons.prems by simp
  note IH = Cons.IH[OF rest]
  show ?case
  proof (cases "cur = []")
    case True
    have "wrapLoop m W (word # ws) lines cur = wrapLoop m W ws lines word"
      using True by simp
    then show ?thesis using IH[of lines word] True w1 by simp
  next
    case False
    show ?thesis
    proof (cases "m (cur @ space # word) > W")
      case True
      have "wrapLoop m W (word # ws) lines cur = wrapLoop m W ws (lines @ [cur]) word"
        using True False by simp
      then show ?thesis using IH[of "lines @ [cur]" word] w1 by simp
    next
      case F2: False
      have "wrapLoop m W (word # ws) lines cur = wrapLoop m W ws lines (cur @ space # word)"
        using F2 False by simp
      then show ?thesis using IH[of lines "cur @ space # word"] w1
        by (simp add: splitSpace_append)
    qed
  qed
qed

lemma wrapLoop_words_exact:
  "\<forall>w \<in> set ws. space \<notin> set w \<and> w \<noteq> [] \<Longrightarrow>
   concat (map splitSpace (wrapLoop m W ws lines cur))
   = concat (map splitSpace lines) @ (if cur = [] then [] else splitSpace cur) @ ws"
proof (induction ws arbitrary: lines cur)
  case Nil
  show ?case by (cases "cur = []") simp_all
next
  case (Cons word ws)
  have w1: "splitSpace word = [word]" using Cons.prems by (simp add: splitSpace_single)
  have w2: "word \<noteq> []" using Cons.prems by simp
  have rest: "\<forall>w \<in> set ws. space \<notin> set w \<and> w \<noteq> []" using Cons.prems by simp
  note IH = Cons.IH[OF rest]
  show ?case
  proof (cases "cur = []")
    case True
    have "wrapLoop m W (word # ws) lines cur = wrapLoop m W ws lines word"
      using True by simp
    then show ?thesis using IH[of lines word] True w1 w2 by simp
  next
    case False
    show ?thesis
    proof (cases "m (cur @ space # word) > W")
      case True
      have "wrapLoop m W (word # ws) lines cur = wrapLoop m W ws (lines @ [cur]) word"
        using True False by simp
      then show ?thesis using IH[of "lines @ [cur]" word] False w1 w2 by simp
    next
      case F2: False
      have "wrapLoop m W (word # ws) lines cur = wrapLoop m W ws lines (cur @ space # word)"
        using F2 False by simp
      then show ?thesis using IH[of lines "cur @ space # word"] False w1
        by (simp add: splitSpace_append)
    qed
  qed
qed

lemma wrapText_lines_nonempty: "l \<in> set (wrapText m s W) \<Longrightarrow> l \<noteq> []"
proof -
  have "\<forall>l \<in> set (wrapLoop m W (splitSpace s) [] []). l \<noteq> []"
    by (rule wrapLoop_inv) auto
  then show "l \<in> set (wrapText m s W) \<Longrightarrow> l \<noteq> []"
    by (auto simp: wrapText_def split: if_splits)
qed

lemma wrapText_words:
  "filter (\<lambda>w. w \<noteq> []) (concat (map splitSpace (wrapText m s W)))
   = filter (\<lambda>w. w \<noteq> []) (splitSpace s)"
proof (cases "s = []")
  case True
  then show ?thesis by (simp add: wrapText_def)
next
  case False
  have "\<forall>w \<in> set (splitSpace s). space \<notin> set w"
    using splitSpace_no_space by blast
  from wrapLoop_words[OF this, of m W "[]" "[]"] False
  show ?thesis by (simp add: wrapText_def)
qed

lemma wrapText_not_Nil:
  assumes "\<exists>c \<in> set s. c \<noteq> space"
  shows "wrapText m s W \<noteq> []"
proof
  assume "wrapText m s W = []"
  then have "filter (\<lambda>w. w \<noteq> []) (splitSpace s) = []"
    using wrapText_words[of m s W] by simp
  then have "\<not> (\<exists>w \<in> set (splitSpace s). w \<noteq> [])"
    by (simp add: filter_empty_conv)
  then show False using assms splitSpace_nonempty_word[of s] by simp
qed

lemma wrapText_fits_or_word:
  "l \<in> set (wrapText m s W) \<Longrightarrow> m l \<le> W \<or> l \<in> set (splitSpace s)"
proof -
  have "\<forall>l \<in> set (wrapLoop m W (splitSpace s) [] []). m l \<le> W \<or> l \<in> set (splitSpace s)"
    by (rule wrapLoop_inv) auto
  then show "l \<in> set (wrapText m s W) \<Longrightarrow> m l \<le> W \<or> l \<in> set (splitSpace s)"
    by (auto simp: wrapText_def split: if_splits)
qed

section \<open>The font-fit loop\<close>

declare fitLoop.simps [simp del] fitTrace.simps [simp del]

lemma measureBlocks_sizes [simp]:
  "englishFontSize (measureBlocks ov st) = englishFontSize st"
  "teluguFontSize (measureBlocks ov st) = teluguFontSize st"
  "warned (measureBlocks ov st) = warned st"
  by (simp_all add: measureBlocks_def Let_def)

lemma measureBlocks_idem: "measureBlocks ov (measureBlocks ov st) = measureBlocks ov st"
  by (simp add: measureBlocks_def Let_def)

lemma minFontSize_ge8: "8 \<le> minFontSize ov"
  by (simp add: minFontSize_def)

lemma shrinkFonts_english:
  "englishFontSize (shrinkFonts ov i st) =
     (if hasEnglish ov \<and> englishFontSize st > minFontSize ov
      then max (minFontSize ov) (englishFontSize st * 0.9) else englishFontSize st)"
  by (auto simp: shrinkFonts_def Let_def)

lemma shrinkFonts_telugu:
  "teluguFontSize (shrinkFonts ov i st) =
     (if hasTelugu ov \<and> teluguFontSize st > minFontSize ov
      then max (minFontSize ov) (teluguFontSize st * 0.9) else teluguFontSize st)"
  by (auto simp: shrinkFonts_def Let_def)

lemma loopBody_Break:
  "loopBody ov i st = Break s \<Longrightarrow>
   s = measureBlocks ov st \<and>
   (totalTextHeight ov s \<le> availableHeightForText ov \<or>
    (englishFontSize st \<le> minFontSize ov \<and> teluguFontSize st \<le> minFontSize ov))"
  by (auto simp: loopBody_def Let_def split: if_splits)

lemma loopBody_Continue:
  "loopBody ov i st = Continue s \<Longrightarrow> s = shrinkFonts ov i (measureBlocks ov st)"
  by (auto simp: loopBody_def Let_def split: if_splits)

lemma initial_nonneg:
  "0 \<le> englishFontSize (initialLayout ov)" "0 \<le> teluguFontSize (initialLayout ov)"
  using minFontSize_ge8[of ov] by (simp_all add: initialLayout_def max_def)

lemma sizesOk_initial: "sizesOk ov 0 (initialLayout ov)"
  by (simp add: sizesOk_def) (simp add: initialLayout_def)

lemma sizesOk_measure: "sizesOk ov i (measureBlocks ov st) = sizesOk ov i st"
  by (simp add: sizesOk_def)

lemma sizesOk_shrink:
  assumes "sizesOk ov i st"
  shows "sizesOk ov (Suc i) (shrinkFonts ov j st)"
proof -
  have e0: "0 \<le> englishFontSize (initialLayout ov) * 0.9 ^ i"
    and t0: "0 \<le> teluguFontSize (initialLayout ov) * 0.9 ^ i"
    using initial_nonneg[of ov] by simp_all
  show ?thesis
    unfolding sizesOk_def shrinkFonts_english shrinkFonts_telugu
    using assms e0 t0 unfolding sizesOk_def
    by (auto simp: max_def split: if_splits)
qed

lemma pow20: "(0.9::real) ^ 20 \<le> 16 / 70"
  by (simp add: power_numeral_reduce)

lemma floor_aux:
  fixes f m w c p :: real
  assumes "f \<le> max m (w / c)" "0 \<le> m" "w / 70 \<le> m" "0 \<le> w" "16 \<le> c"
    and "0 \<le> p" "p \<le> 16 / 70"
  shows "f * p \<le> m"
proof -
  have p1: "p \<le> 1" using assms(7) by simp
  have a: "m * p \<le> m" using assms(2) p1 by (rule mult_left_le[rotated])
  have "w / c \<le> w / 16" using assms(4,5) frac_le[of w w 16 c] by simp
  then have "w / c * p \<le> w / 16 * p" using assms(6) by (rule mult_right_mono)
  also have "\<dots> \<le> w / 16 * (16 / 70)" using assms(7,4) by (intro mult_left_mono) simp_all
  also have "\<dots> = w / 70" by simp
  finally have "w / c * p \<le> w / 70" .
  then have b: "w / c * p \<le> m" using assms(3) by linarith
  have "f * p \<le> max m (w / c) * p" using assms(1,6) by (rule mult_right_mono)
  also have "\<dots> \<le> m" using a b by (cases "m \<le> w / c") (simp_all add: max_def)
  finally show ?thesis .
qed

lemma floor20:
  fixes f m w c :: real
  assumes "f \<le> max m (w / c)" "8 \<le> m" "w / 70 \<le> m" "0 \<le> w" "16 \<le> c"
  shows "f * 0.9 ^ 20 \<le> m"
proof (rule floor_aux[OF assms(1) _ assms(3,4,5)])
  show "0 \<le> m" using assms(2) by simp
  show "(0::real) \<le> 0.9 ^ 20" by simp
  show "(0.9::real) ^ 20 \<le> 16 / 70" by (rule pow20)
qed

lemma english_floor20: "englishFontSize (initialLayout ov) * 0.9 ^ 20 \<le> minFontSize ov"
proof (rule floor20[where w = "real (imgWidth ov)" and c = 18])
  show "englishFontSize (initialLayout ov) \<le> max (minFontSize ov) (real (imgWidth ov) / 18)"
    by (simp add: initialLayout_def)
qed (simp_all add: minFontSize_def)

lemma telugu_floor20: "teluguFontSize (initialLayout ov) * 0.9 ^ 20 \<le> minFontSize ov"
proof (rule floor20[where w = "real (imgWidth ov)" and c = 16])
  show "teluguFontSize (initialLayout ov) \<le> max (minFontSize ov) (real (imgWidth ov) / 16)"
    by (simp add: initialLayout_def)
qed (simp_all add: minFontSize_def)

lemma sizesOk_exhausted:
  assumes "sizesOk ov maxIterations st"
  shows "(hasEnglish ov \<longrightarrow> englishFontSize st = minFontSize ov) \<and>
         (hasTelugu ov \<longrightarrow> teluguFontSize st = minFontSize ov)"
  using assms english_floor20[of ov] telugu_floor20[of ov]
  unfolding sizesOk_def maxIterations_def by (auto simp: max_def)

lemma sizesOk_ge:
  "sizesOk ov i st \<Longrightarrow> minFontSize ov \<le> englishFontSize st \<and> minFontSize ov \<le> teluguFontSize st"
  by (simp add: sizesOk_def)

lemma fitLoop_exit:
  "sizesOk ov i st \<Longrightarrow> i \<le> maxIterations \<Longrightarrow>
   minFontSize ov \<le> englishFontSize (fitLoop ov i st) \<and>
   minFontSize ov \<le> teluguFontSize (fitLoop ov i st) \<and>
   (totalTextHeight ov (measureBlocks ov (fitLoop ov i st)) \<le> availableHeightForText ov \<or>
    ((hasEnglish ov \<longrightarrow> englishFontSize (fitLoop ov i st) = minFontSize ov) \<and>
     (hasTelugu ov \<longrightarrow> teluguFontSize (fitLoop ov i st) = minFontSize ov)))"
proof (induction ov i st rule: fitLoop.induct)
  case (1 ov i st)
  note ge = sizesOk_ge[OF "1.prems"(1)]
  show ?case
  proof (cases "i < maxIterations")
    case False
    then have i: "i = maxIterations" using "1.prems"(2) by simp
    have r: "fitLoop ov i st = st" using False by (simp add: fitLoop.simps)
    have "sizesOk ov maxIterations st" using "1.prems"(1) unfolding i .
    from sizesOk_exhausted[OF this] ge show ?thesis unfolding r by blast
  next
    case True
    show ?thesis
    proof (cases "loopBody ov i st")
      case (Break s)
      have r: "fitLoop ov i st = s" using True Break by (simp add: fitLoop.simps)
      from loopBody_Break[OF Break] have s: "s = measureBlocks ov st"
        and d: "totalTextHeight ov s \<le> availableHeightForText ov \<or>
          (englishFontSize st \<le> minFontSize ov \<and> teluguFontSize st \<le> minFontSize ov)"
        by blast+
      have ms: "measureBlocks ov s = s" unfolding s by (rule measureBlocks_idem)
      have e: "englishFontSize s = englishFontSize st" "teluguFontSize s = teluguFontSize st"
        unfolding s by simp_all
      from d show ?thesis
      proof
        assume "totalTextHeight ov s \<le> availableHeightForText ov"
        then show ?thesis unfolding r ms e using ge by blast
      next
        assume "englishFontSize st \<le> minFontSize ov \<and> teluguFontSize st \<le> minFontSize ov"
        then have "englishFontSize st = minFontSize ov" "teluguFontSize st = minFontSize ov"
          using ge by linarith+
        then show ?thesis unfolding r ms e by simp
      qed
    next
      case (Continue s)
      have r: "fitLoop ov i st = fitLoop ov (i + 1) s"
        using True Continue by (simp add: fitLoop.simps)
      have s: "s = shrinkFonts ov i (measureBlocks ov st)" by (rule loopBody_Continue[OF Continue])
      have "sizesOk ov i (measureBlocks ov st)" using "1.prems"(1) by (simp only: sizesOk_measure)
      then have ok: "sizesOk ov (i + 1) s" unfolding s
        using sizesOk_shrink[of ov i "measureBlocks ov st" i] by simp
      have le: "i + 1 \<le> maxIterations" using True by simp
      show ?thesis unfolding r by (rule "1.IH"[OF True Continue ok le])
    qed
  qed
qed

lemma fitTrace_hd: "hd (fitTrace ov i st) = st"
  by (subst fitTrace.simps) (simp split: step.splits)

lemma fitTrace_not_Nil: "fitTrace ov i st \<noteq> []"
  by (subst fitTrace.simps) (simp split: step.splits)

lemma fitTrace_last: "last (fitTrace ov i st) = fitLoop ov i st"
proof (induction ov i st rule: fitLoop.induct)
  case (1 ov i st)
  show ?case
  proof (cases "i < maxIterations")
    case False
    then show ?thesis by (simp add: fitLoop.simps fitTrace.simps)
  next
    case True
    show ?thesis
    proof (cases "loopBody ov i st")
      case (Break s)
      then show ?thesis using True by (simp add: fitLoop.simps fitTrace.simps)
    next
      case (Continue s)
      have "last (fitTrace ov i st) = last (fitTrace ov (i + 1) s)"
        using True Continue fitTrace_not_Nil[of ov "i + 1" s]
        by (subst fitTrace.simps) simp
      also have "\<dots> = fitLoop ov (i + 1) s" by (rule "1.IH"[OF True Continue])
      also have "\<dots> = fitLoop ov i st" using True Continue by (subst (2) fitLoop.simps) simp
      finally show ?thesis .
    qed
  qed
qed

lemma fitTrace_length: "length (fitTrace ov i st) \<le> Suc (maxIterations - i)"
proof (induction ov i st rule: fitTrace.induct)
  case (1 ov i st)
  show ?case
  proof (cases "i < maxIterations")
    case False
    then show ?thesis by (simp add: fitTrace.simps)
  next
    case True
    show ?thesis
    proof (cases "loopBody ov i st")
      case (Break s)
      then show ?thesis using True by (subst fitTrace.simps) simp
    next
      case (Continue s)
      have "length (fitTrace ov (i + 1) s) \<le> Suc (maxIterations - (i + 1))"
        by (rule "1.IH"[OF True Continue])
      then show ?thesis using True Continue by (subst fitTrace.simps) simp
    qed
  qed
qed

lemma sizeStep_measure: "sizeStep ov st (measureBlocks ov st)"
  by (simp add: sizeStep_def)

lemma sizeStep_shrink: "sizeStep ov st (shrinkFonts ov i (measureBlocks ov st))"
  using minFontSize_ge8[of ov]
  by (auto simp: sizeStep_def shrinkFonts_english shrinkFonts_telugu max_def)

lemma fitTrace_successively: "successively (sizeStep ov) (fitTrace ov i st)"
proof (induction ov i st rule: fitTrace.induct)
  case (1 ov i st)
  show ?case
  proof (cases "i < maxIterations")
    case False
    then show ?thesis by (simp add: fitTrace.simps)
  next
    case True
    show ?thesis
    proof (cases "loopBody ov i st")
      case (Break s)
      have "s = measureBlocks ov st" using loopBody_Break[OF Break] by simp
      then show ?thesis using True Break sizeStep_measure[of ov st]
        by (subst fitTrace.simps) simp
    next
      case (Continue s)
      have s: "s = shrinkFonts ov i (measureBlocks ov st)" by (rule loopBody_Continue[OF Continue])
      have "successively (sizeStep ov) (fitTrace ov (i + 1) s)"
        by (rule "1.IH"[OF True Continue])
      moreover have "sizeStep ov st (hd (fitTrace ov (i + 1) s))"
        unfolding fitTrace_hd s by (rule sizeStep_shrink)
      ultimately show ?thesis using True Continue
        by (subst fitTrace.simps) (simp add: successively_Cons)
    qed
  qed
qed

lemma fitLoop_english_unchanged:
  "\<not> hasEnglish ov \<Longrightarrow> englishFontSize (fitLoop ov i st) = englishFontSize st"
proof (induction ov i st rule: fitLoop.induct)
  case (1 ov i st)
  show ?case
  proof (cases "i < maxIterations")
    case False
    then show ?thesis by (simp add: fitLoop.simps)
  next
    case True
    show ?thesis
    proof (cases "loopBody ov i st")
      case (Break s)
      then show ?thesis using True loopBody_Break[OF Break] by (simp add: fitLoop.simps)
    next
      case (Continue s)
      have s: "s = shrinkFonts ov i (measureBlocks ov st)" by (rule loopBody_Continue[OF Continue])
      have "englishFontSize (fitLoop ov (i + 1) s) = englishFontSize s"
        by (rule "1.IH"[OF True Continue "1.prems"])
      also have "\<dots> = englishFontSize st" unfolding s using "1.prems"
        by (simp add: shrinkFonts_english)
      finally show ?thesis using True Continue by (subst fitLoop.simps) simp
    qed
  qed
qed

lemma fitLoop_telugu_unchanged:
  "\<not> hasTelugu ov \<Longrightarrow> teluguFontSize (fitLoop ov i st) = teluguFontSize st"
proof (induction ov i st rule: fitLoop.induct)
  case (1 ov i st)
  show ?case
  proof (cases "i < maxIterations")
    case False
    then show ?thesis by (simp add: fitLoop.simps)
  next
    case True
    show ?thesis
    proof (cases "loopBody ov i st")
      case (Break s)
      then show ?thesis using True loopBody_Break[OF Break] by (simp add: fitLoop.simps)
    next
      case (Continue s)
      have s: "s = shrinkFonts ov i (measureBlocks ov st)" by (rule loopBody_Continue[OF Continue])
      have "teluguFontSize (fitLoop ov (i + 1) s) = teluguFontSize s"
        by (rule "1.IH"[OF True Continue "1.prems"])
      also have "\<dots> = teluguFontSize st" unfolding s using "1.prems"
        by (simp add: shrinkFonts_telugu)
      finally show ?thesis using True Continue by (subst fitLoop.simps) simp
    qed
  qed
qed

section \<open>Blank texts and measured blocks\<close>

lemma hasEnglish_iff: "hasEnglish ov \<longleftrightarrow> \<not> list_all isWhiteSpace (engText ov)"
  unfolding hasEnglish_def trim_empty_iff by (cases "engText ov") simp_all

lemma hasTelugu_iff: "hasTelugu ov \<longleftrightarrow> \<not> list_all isWhiteSpace (telText ov)"
  unfolding hasTelugu_def trim_empty_iff by (cases "telText ov") simp_all

lemma not_blank_has_non_space: "\<not> list_all isWhiteSpace s \<Longrightarrow> \<exists>c \<in> set s. c \<noteq> space"
proof -
  assume "\<not> list_all isWhiteSpace s"
  then obtain c where c: "c \<in> set s" "\<not> isWhiteSpace c" by (auto simp: list_all_iff)
  then have "c \<noteq> space" using isWhiteSpace_space by metis
  then show ?thesis using c(1) by blast
qed

lemma measureBlocks_english:
  "englishLines (measureBlocks ov st) =
     (if hasEnglish ov
      then wrapText (ctxMeasureText ov (BoldPx (englishFontSize st) InterArialSansSerif))
             (engText ov) (textMaxWidth ov)
      else [])"
  "englishBlockHeight (measureBlocks ov st) =
     real (length (englishLines (measureBlocks ov st))) * (englishFontSize st * 1.2)"
  "englishLineHeight (measureBlocks ov st) = englishFontSize st * 1.2"
  by (simp_all add: measureBlocks_def Let_def)

lemma measureBlocks_telugu:
  "teluguLines (measureBlocks ov st) =
     (if hasTelugu ov
      then wrapText (ctxMeasureText ov (BoldPx (teluguFontSize st) NotoSansTeluguSansSerif))
             (telText ov) (textMaxWidth ov)
      else [])"
  "teluguBlockHeight (measureBlocks ov st) =
     real (length (teluguLines (measureBlocks ov st))) * (teluguFontSize st * 1.2)"
  "teluguLineHeight (measureBlocks ov st) = teluguFontSize st * 1.2"
  by (simp_all add: measureBlocks_def Let_def)

lemma measured_english_lines:
  "englishLines (measureBlocks ov st) \<noteq> [] \<longleftrightarrow> hasEnglish ov"
  using wrapText_not_Nil[OF not_blank_has_non_space] hasEnglish_iff[of ov]
  by (simp add: measureBlocks_english)

lemma measured_telugu_lines:
  "teluguLines (measureBlocks ov st) \<noteq> [] \<longleftrightarrow> hasTelugu ov"
  using wrapText_not_Nil[OF not_blank_has_non_space] hasTelugu_iff[of ov]
  by (simp add: measureBlocks_telugu)

lemma solveLayout_sizes_ge:
  "minFontSize ov \<le> englishFontSize (solveLayout ov)"
  "minFontSize ov \<le> teluguFontSize (solveLayout ov)"
  using fitLoop_exit[OF sizesOk_initial, of ov] by (simp_all add: solveLayout_def)

section \<open>Empty input\<close>

text \<open>
  Claim C8. \<^verbatim>\<open>wrapText\<close> of the empty string is the empty list of lines, whatever the width
  and the measurer. When both texts are empty or consist of white space only, every wrap
  of the solver (at the head of an iteration, from any layout \<open>st\<close>, and after the loop)
  yields no lines for either block, both block heights are zero and so is the total text
  height, in the loop and in the painter.
\<close>

theorem empty_input_handling:
  "wrapText m [] W = [] \<and>
   (list_all isWhiteSpace (engText ov) \<and> list_all isWhiteSpace (telText ov) \<longrightarrow>
      englishLines (measureBlocks ov st) = [] \<and> teluguLines (measureBlocks ov st) = [] \<and>
      englishBlockHeight (measureBlocks ov st) = 0 \<and> teluguBlockHeight (measureBlocks ov st) = 0 \<and>
      totalTextHeight ov (measureBlocks ov st) = 0 \<and>
      englishLines (solveLayout ov) = [] \<and> teluguLines (solveLayout ov) = [] \<and>
      englishBlockHeight (solveLayout ov) = 0 \<and> teluguBlockHeight (solveLayout ov) = 0 \<and>
      totalActualTextHeight ov = 0)"
proof (intro conjI impI)
  show "wrapText m [] W = []" by (simp add: wrapText_def)
next
  assume "list_all isWhiteSpace (engText ov) \<and> list_all isWhiteSpace (telText ov)"
  then have no: "\<not> hasEnglish ov" "\<not> hasTelugu ov"
    by (simp_all add: hasEnglish_iff hasTelugu_iff)
  have g: "englishLines (measureBlocks ov s) = [] \<and> teluguLines (measureBlocks ov s) = [] \<and>
      englishBlockHeight (measureBlocks ov s) = 0 \<and> teluguBlockHeight (measureBlocks ov s) = 0 \<and>
      totalTextHeight ov (measureBlocks ov s) = 0" for s
    using no by (simp add: measureBlocks_def totalTextHeight_def Let_def)
  show "englishLines (measureBlocks ov st) = []" "teluguLines (measureBlocks ov st) = []"
    "englishBlockHeight (measureBlocks ov st) = 0" "teluguBlockHeight (measureBlocks ov st) = 0"
    "totalTextHeight ov (measureBlocks ov st) = 0"
    using g[of st] by blast+
  show "englishLines (solveLayout ov) = []" "teluguLines (solveLayout ov) = []"
    "englishBlockHeight (solveLayout ov) = 0" "teluguBlockHeight (solveLayout ov) = 0"
    "totalActualTextHeight ov = 0"
    unfolding totalActualTextHeight_def solveLayout_def
    using g[of "fitLoop ov 0 (initialLayout ov)"] by blast+
qed

theorem empty_input_handling_witness:
  "list_all isWhiteSpace (engText blankPoster) \<and> list_all isWhiteSpace (telText blankPoster) \<and>
   englishLines (solveLayout blankPoster) = [] \<and> teluguLines (solveLayout blankPoster) = [] \<and>
   englishBlockHeight (solveLayout blankPoster) = 0 \<and> teluguBlockHeight (solveLayout blankPoster) = 0 \<and>
   totalActualTextHeight blankPoster = 0"
proof -
  have b: "list_all isWhiteSpace (engText blankPoster)" "list_all isWhiteSpace (telText blankPoster)"
    by (simp_all add: blankPoster_def isWhiteSpace_def)
  show ?thesis
    using b empty_input_handling[of unitWidth 0 blankPoster "initialLayout blankPoster"] by blast
qed

section \<open>Lines are never empty\<close>

text \<open>
  Claim C9. Every line \<^verbatim>\<open>wrapText\<close> returns is a non-empty string, and a text with at least
  one code unit other than a space yields at least one line. Hence a block whose text is
  not blank has a positive number of lines and a positive height in the settled layout,
  and in every wrap of the solver made at a positive font size.
\<close>

theorem lines_nonempty:
  "(\<forall>l \<in> set (wrapText m s W). l \<noteq> []) \<and>
   ((\<exists>c \<in> set s. c \<noteq> space) \<longrightarrow> wrapText m s W \<noteq> []) \<and>
   (\<not> list_all isWhiteSpace (engText ov) \<longrightarrow>
      0 < length (englishLines (solveLayout ov)) \<and> 0 < englishBlockHeight (solveLayout ov) \<and>
      (0 < englishFontSize st \<longrightarrow>
         0 < length (englishLines (measureBlocks ov st)) \<and>
         0 < englishBlockHeight (measureBlocks ov st))) \<and>
   (\<not> list_all isWhiteSpace (telText ov) \<longrightarrow>
      0 < length (teluguLines (solveLayout ov)) \<and> 0 < teluguBlockHeight (solveLayout ov) \<and>
      (0 < teluguFontSize st \<longrightarrow>
         0 < length (teluguLines (measureBlocks ov st)) \<and>
         0 < teluguBlockHeight (measureBlocks ov st)))"
proof -
  have 1: "\<forall>l \<in> set (wrapText m s W). l \<noteq> []"
    using wrapText_lines_nonempty by blast
  have 2: "(\<exists>c \<in> set s. c \<noteq> space) \<longrightarrow> wrapText m s W \<noteq> []"
    using wrapText_not_Nil by blast
  have e: "0 < length (englishLines (measureBlocks ov t)) \<and>
           0 < englishBlockHeight (measureBlocks ov t)"
    if "\<not> list_all isWhiteSpace (engText ov)" "0 < englishFontSize t" for t
  proof -
    have "hasEnglish ov" using that(1) by (simp add: hasEnglish_iff)
    then have n: "0 < length (englishLines (measureBlocks ov t))"
      using measured_english_lines[of ov t] by simp
    then show ?thesis using that(2) by (simp add: measureBlocks_english(2))
  qed
  have t: "0 < length (teluguLines (measureBlocks ov t)) \<and>
           0 < teluguBlockHeight (measureBlocks ov t)"
    if "\<not> list_all isWhiteSpace (telText ov)" "0 < teluguFontSize t" for t
  proof -
    have "hasTelugu ov" using that(1) by (simp add: hasTelugu_iff)
    then have n: "0 < length (teluguLines (measureBlocks ov t))"
      using measured_telugu_lines[of ov t] by simp
    then show ?thesis using that(2) by (simp add: measureBlocks_telugu(2))
  qed
  let ?r = "fitLoop ov 0 (initialLayout ov)"
  have pos: "0 < englishFontSize ?r" "0 < teluguFontSize ?r"
    using fitLoop_exit[OF sizesOk_initial, of ov] minFontSize_ge8[of ov] by simp_all
  have 3: "\<not> list_all isWhiteSpace (engText ov) \<longrightarrow>
      0 < length (englishLines (solveLayout ov)) \<and> 0 < englishBlockHeight (solveLayout ov) \<and>
      (0 < englishFontSize st \<longrightarrow>
         0 < length (englishLines (measureBlocks ov st)) \<and>
         0 < englishBlockHeight (measureBlocks ov st))"
    unfolding solveLayout_def using e[of ?r] e[of st] pos(1) by blast
  have 4: "\<not> list_all isWhiteSpace (telText ov) \<longrightarrow>
      0 < length (teluguLines (solveLayout ov)) \<and> 0 < teluguBlockHeight (solveLayout ov) \<and>
      (0 < teluguFontSize st \<longrightarrow>
         0 < length (teluguLines (measureBlocks ov st)) \<and>
         0 < teluguBlockHeight (measureBlocks ov st))"
    unfolding solveLayout_def using t[of ?r] t[of st] pos(2) by blast
  show ?thesis using 1 2 3 4 by blast
qed

theorem lines_nonempty_witness:
  "(72 :: codeUnit) \<in> set [72, 105] \<and> (72 :: codeUnit) \<noteq> space \<and>
   wrapText unitWidth [72, 105] 5 \<noteq> [] \<and>
   \<not> list_all isWhiteSpace (engText smallPoster) \<and>
   \<not> list_all isWhiteSpace (telText smallPoster) \<and>
   0 < length (englishLines (solveLayout smallPoster)) \<and>
   0 < englishBlockHeight (solveLayout smallPoster) \<and>
   0 < length (teluguLines (solveLayout smallPoster)) \<and>
   0 < teluguBlockHeight (solveLayout smallPoster)"
proof -
  have a: "(72 :: codeUnit) \<in> set [72, 105]" "(72 :: codeUnit) \<noteq> space"
    by (simp_all add: space_def)
  have b: "\<not> list_all isWhiteSpace (engText smallPoster)"
    "\<not> list_all isWhiteSpace (telText smallPoster)"
    by (simp_all add: smallPoster_def isWhiteSpace_def)
  show ?thesis
    using a b lines_nonempty[of unitWidth "[72, 105]" 5 smallPoster "initialLayout smallPoster"]
    by blast
qed

section \<open>Wrapping keeps the words\<close>

lemma tidy_words:
  assumes "tidy s" "s \<noteq> []"
  shows "\<forall>w \<in> set (splitSpace s). space \<notin> set w \<and> w \<noteq> []"
proof
  fix w assume w: "w \<in> set (splitSpace s)"
  have "[] \<notin> set (splitSpace s)"
    using assms splitSpace_empty_word[of s] by (simp add: tidy_def)
  then have "w \<noteq> []" using w by metis
  then show "space \<notin> set w \<and> w \<noteq> []" using splitSpace_no_space[OF w] by simp
qed

text \<open>
  Claim C10. For a text with no leading, trailing or consecutive space, joining the lines
  \<^verbatim>\<open>wrapText\<close> returns with single spaces gives the text back, and the words of the lines,
  in order, are exactly the words of the text: no word is lost, repeated, split or merged.
  This holds for every width and every measurer.
\<close>

theorem wrap_preserves_words:
  "tidy s \<Longrightarrow>
   joinSpace (wrapText m s W) = s \<and>
   concat (map splitSpace (wrapText m s W)) = (if s = [] then [] else splitSpace s)"
proof (cases "s = []")
  case True
  then show ?thesis by (simp add: wrapText_def)
next
  case False
  assume "tidy s"
  from wrapLoop_words_exact[OF tidy_words[OF this False], of m W "[]" "[]"]
  have c: "concat (map splitSpace (wrapText m s W)) = splitSpace s"
    using False by (simp add: wrapText_def)
  have "joinSpace (wrapText m s W) = joinSpace (concat (map splitSpace (wrapText m s W)))"
    by (rule joinSpace_concat_split[symmetric])
  also have "\<dots> = s" unfolding c by (rule joinSpace_splitSpace)
  finally show ?thesis using c False by simp
qed

theorem wrap_preserves_words_witness:
  "tidy [72, 105, 32, 97, 108, 108] \<and>
   wrapText unitWidth [72, 105, 32, 97, 108, 108] 3 = [[72, 105], [97, 108, 108]] \<and>
   joinSpace (wrapText unitWidth [72, 105, 32, 97, 108, 108] 3) = [72, 105, 32, 97, 108, 108] \<and>
   concat (map splitSpace (wrapText unitWidth [72, 105, 32, 97, 108, 108] 3)) =
     splitSpace [72, 105, 32, 97, 108, 108]"
proof -
  have t: "tidy [72, 105, 32, 97, 108, 108]" by (simp add: tidy_def space_def)
  have w: "wrapText unitWidth [72, 105, 32, 97, 108, 108] 3 = [[72, 105], [97, 108, 108]]"
    by (simp add: wrapText_def unitWidth_def space_def)
  show ?thesis using t w wrap_preserves_words[OF t, of unitWidth 3] by simp
qed

text \<open>
  Claim C2, amended. For every text, width and measurer: every line \<^verbatim>\<open>wrapText\<close> returns
  either measures at most \<open>maxWidth\<close> or is a single word of the text that alone measures
  more; and no word is split, the non-empty words of the lines being, in order, the
  non-empty words of the text. If moreover the measurer never finds a string narrower than
  a part of it (as pixel widths do), a line that holds a word wider than \<open>maxWidth\<close> holds
  nothing but that word.
\<close>

theorem wrap_correctness:
  "(\<forall>l \<in> set (wrapText m s W). m l \<le> W \<or> (l \<in> set (splitSpace s) \<and> W < m l)) \<and>
   filter (\<lambda>w. w \<noteq> []) (concat (map splitSpace (wrapText m s W)))
     = filter (\<lambda>w. w \<noteq> []) (splitSpace s) \<and>
   ((\<forall>u pre post. m u \<le> m (pre @ u @ post)) \<longrightarrow>
      (\<forall>l \<in> set (wrapText m s W). \<forall>w \<in> set (splitSpace l). W < m w \<longrightarrow> l = w))"
proof (intro conjI impI ballI)
  fix l assume "l \<in> set (wrapText m s W)"
  from wrapText_fits_or_word[OF this]
  show "m l \<le> W \<or> (l \<in> set (splitSpace s) \<and> W < m l)" by (cases "m l \<le> W") auto
next
  show "filter (\<lambda>w. w \<noteq> []) (concat (map splitSpace (wrapText m s W)))
     = filter (\<lambda>w. w \<noteq> []) (splitSpace s)" by (rule wrapText_words)
next
  fix l w
  assume mono: "\<forall>u pre post. m u \<le> m (pre @ u @ post)"
    and l: "l \<in> set (wrapText m s W)" and w: "w \<in> set (splitSpace l)" and wide: "W < m w"
  from splitSpace_sublist[OF w] obtain pre post where "l = pre @ w @ post"
    unfolding sublist_def by blast
  then have "m w \<le> m l" using mono by blast
  then have "\<not> m l \<le> W" using wide by simp
  then have "l \<in> set (splitSpace s)" using wrapText_fits_or_word[OF l] by blast
  then have "splitSpace l = [l]" using splitSpace_no_space splitSpace_single by blast
  then show "l = w" using w by simp
qed

theorem wrap_correctness_witness:
  "(\<forall>u pre post. unitWidth u \<le> unitWidth (pre @ u @ post)) \<and>
   wrapText unitWidth [72, 105, 32, 97, 108, 108, 115] 3 = [[72, 105], [97, 108, 108, 115]] \<and>
   unitWidth [72, 105] \<le> 3 \<and> 3 < unitWidth [97, 108, 108, 115] \<and>
   [97, 108, 108, 115] \<in> set (splitSpace [72, 105, 32, 97, 108, 108, 115]) \<and>
   filter (\<lambda>w. w \<noteq> []) (concat (map splitSpace (wrapText unitWidth [72, 105, 32, 97, 108, 108, 115] 3)))
     = [[72, 105], [97, 108, 108, 115]]"
proof -
  have m: "\<forall>u pre post. unitWidth u \<le> unitWidth (pre @ u @ post)"
    by (simp add: unitWidth_def)
  have w: "wrapText unitWidth [72, 105, 32, 97, 108, 108, 115] 3 = [[72, 105], [97, 108, 108, 115]]"
    by (simp add: wrapText_def unitWidth_def space_def)
  have s: "splitSpace [72, 105, 32, 97, 108, 108, 115] = [[72, 105], [97, 108, 108, 115]]"
    by (simp add: space_def)
  have f: "filter (\<lambda>w. w \<noteq> []) (concat (map splitSpace (wrapText unitWidth [72, 105, 32, 97, 108, 108, 115] 3)))
     = filter (\<lambda>w. w \<noteq> []) (splitSpace [72, 105, 32, 97, 108, 108, 115])"
    by (rule wrap_correctness[THEN conjunct2, THEN conjunct1])
  have f': "filter (\<lambda>w. w \<noteq> []) (concat (map splitSpace (wrapText unitWidth [72, 105, 32, 97, 108, 108, 115] 3)))
     = [[72, 105], [97, 108, 108, 115]]"
    unfolding f s by simp
  have u: "unitWidth [72, 105] \<le> 3" "3 < unitWidth [97, 108, 108, 115]"
    by (simp_all add: unitWidth_def)
  have i: "[97, 108, 108, 115] \<in> set (splitSpace [72, 105, 32, 97, 108, 108, 115])"
    unfolding s by simp
  show ?thesis using m w u i f' by blast
qed

text \<open>
  Without that condition on the measurer the over-wide word need not be alone: with a
  measurer that finds only \<^verbatim>\<open>"bb"\<close> wide, \<^verbatim>\<open>"a bb"\<close> is wrapped into the single line
  \<^verbatim>\<open>"a bb"\<close> for a width of 10, although \<^verbatim>\<open>"bb"\<close> alone measures 100.
\<close>

theorem wide_word_shares_line:
  "[98, 98] \<in> set (splitSpace [97, 32, 98, 98]) \<and> 10 < oneWideWord [98, 98] \<and>
   wrapText oneWideWord [97, 32, 98, 98] 10 = [[97, 32, 98, 98]] \<and>
   [98, 98] \<notin> set (wrapText oneWideWord [97, 32, 98, 98] 10)"
  by (simp add: wrapText_def oneWideWord_def space_def)

section \<open>Convergence of the font-fit loop\<close>

text \<open>The twelve words of the sample text stay on twelve lines at any font size from 8
  up, as each alone is wider than the 153 pixels allowed.\<close>

lemma wideGlyphs_lines:
  assumes "8 \<le> z"
  shows "length (wrapText (wideGlyphs (BoldPx z fam)) (telText longTeluguOnly) 153) = 12"
  using assms by (simp add: wrapText_def longTeluguOnly_def space_def Let_def)

text \<open>With the twelve words as both texts the settled layout overflows: each block has
  twelve lines at a size of at least 8.\<close>

lemma longBoth_overflows:
  "hasEnglish longBoth" "hasTelugu longBoth"
  "availableHeightForText longBoth < totalActualTextHeight longBoth"
proof -
  let ?ov = longBoth
  let ?r = "fitLoop ?ov 0 (initialLayout ?ov)"
  show he: "hasEnglish ?ov"
    by (simp add: hasEnglish_def longBoth_def longTeluguOnly_def trim_def isWhiteSpace_def)
  show ht: "hasTelugu ?ov"
    by (simp add: hasTelugu_def longBoth_def longTeluguOnly_def trim_def isWhiteSpace_def)
  have m: "minFontSize ?ov = 8" by (simp add: minFontSize_def longBoth_def longTeluguOnly_def)
  have z: "8 \<le> englishFontSize ?r" "8 \<le> teluguFontSize ?r"
    using fitLoop_exit[OF sizesOk_initial, of ?ov] m by simp_all
  have W: "textMaxWidth ?ov = 153" by (simp add: textMaxWidth_def longBoth_def longTeluguOnly_def)
  have c: "ctxMeasureText ?ov = wideGlyphs" by (simp add: longBoth_def longTeluguOnly_def)
  have x: "engText ?ov = telText longTeluguOnly" "telText ?ov = telText longTeluguOnly"
    by (simp_all add: longBoth_def)
  have ne: "length (englishLines (solveLayout ?ov)) = 12"
    unfolding solveLayout_def measureBlocks_english(1) using he wideGlyphs_lines[OF z(1)] W c x
    by simp
  have nt: "length (teluguLines (solveLayout ?ov)) = 12"
    unfolding solveLayout_def measureBlocks_telugu(1) using ht wideGlyphs_lines[OF z(2)] W c x
    by simp
  have be: "englishBlockHeight (solveLayout ?ov) = 12 * (englishFontSize ?r * 1.2)"
    using ne unfolding solveLayout_def measureBlocks_english(2) by simp
  have bt: "teluguBlockHeight (solveLayout ?ov) = 12 * (teluguFontSize ?r * 1.2)"
    using nt unfolding solveLayout_def measureBlocks_telugu(2) by simp
  have p: "0 \<le> interTextPadding ?ov" by (simp add: interTextPadding_def)
  have "230.4 \<le> englishBlockHeight (solveLayout ?ov) + teluguBlockHeight (solveLayout ?ov)"
    unfolding be bt using z by simp
  then have t: "230.4 \<le> totalActualTextHeight ?ov"
    using p unfolding totalActualTextHeight_def totalTextHeight_def by simp
  have a: "availableHeightForText ?ov = 114.75"
    by (simp add: availableHeightForText_def longBoth_def longTeluguOnly_def)
  show "availableHeightForText ?ov < totalActualTextHeight ?ov" using t a by simp
qed

text \<open>
  Claim C1, amended. For every pair of texts, every measurer and every image size the loop
  runs at most 20 iterations (the trace holds at most 21 layouts and ends in the layout the
  loop returns), both settled font sizes are at least \<open>max 8 (width / 70)\<close>, and on exit
  either the total stacked height is at most 0.85 times the canvas height or the font size
  of every block that has text equals that minimum. The size of a block without text is
  never shrunk: it keeps its initial value, \<open>max minimum (min (width / 18) (height / 15))\<close>
  for English and \<open>max minimum (min (width / 16) (height / 12))\<close> for Telugu.
\<close>

theorem fit_convergence:
  "length (fitTrace ov 0 (initialLayout ov)) \<le> Suc maxIterations \<and>
   last (fitTrace ov 0 (initialLayout ov)) = fitLoop ov 0 (initialLayout ov) \<and>
   max 8 (real (imgWidth ov) / 70) \<le> englishFontSize (solveLayout ov) \<and>
   max 8 (real (imgWidth ov) / 70) \<le> teluguFontSize (solveLayout ov) \<and>
   (totalActualTextHeight ov \<le> real (imgHeight ov) * 0.85 \<or>
    ((hasEnglish ov \<longrightarrow> englishFontSize (solveLayout ov) = max 8 (real (imgWidth ov) / 70)) \<and>
     (hasTelugu ov \<longrightarrow> teluguFontSize (solveLayout ov) = max 8 (real (imgWidth ov) / 70)))) \<and>
   (\<not> hasEnglish ov \<longrightarrow>
      englishFontSize (solveLayout ov) =
        max (max 8 (real (imgWidth ov) / 70))
            (min (real (imgWidth ov) / 18) (real (imgHeight ov) / 15))) \<and>
   (\<not> hasTelugu ov \<longrightarrow>
      teluguFontSize (solveLayout ov) =
        max (max 8 (real (imgWidth ov) / 70))
            (min (real (imgWidth ov) / 16) (real (imgHeight ov) / 12)))"
proof -
  have 1: "length (fitTrace ov 0 (initialLayout ov)) \<le> Suc maxIterations"
    using fitTrace_length[of ov 0 "initialLayout ov"] by simp
  have 2: "last (fitTrace ov 0 (initialLayout ov)) = fitLoop ov 0 (initialLayout ov)"
    by (rule fitTrace_last)
  have 3: "minFontSize ov \<le> englishFontSize (solveLayout ov) \<and>
   minFontSize ov \<le> teluguFontSize (solveLayout ov) \<and>
   (totalActualTextHeight ov \<le> availableHeightForText ov \<or>
    ((hasEnglish ov \<longrightarrow> englishFontSize (solveLayout ov) = minFontSize ov) \<and>
     (hasTelugu ov \<longrightarrow> teluguFontSize (solveLayout ov) = minFontSize ov)))"
    using fitLoop_exit[OF sizesOk_initial, of ov]
    by (simp add: solveLayout_def totalActualTextHeight_def measureBlocks_idem)
  have i: "englishFontSize (initialLayout ov) =
        max (minFontSize ov) (min (real (imgWidth ov) / 18) (real (imgHeight ov) / 15))"
    "teluguFontSize (initialLayout ov) =
        max (minFontSize ov) (min (real (imgWidth ov) / 16) (real (imgHeight ov) / 12))"
    by (simp_all add: initialLayout_def)
  have 4: "\<not> hasEnglish ov \<longrightarrow> englishFontSize (solveLayout ov) =
        max (minFontSize ov) (min (real (imgWidth ov) / 18) (real (imgHeight ov) / 15))"
    unfolding solveLayout_def measureBlocks_sizes i[symmetric]
    using fitLoop_english_unchanged[of ov 0 "initialLayout ov"] by blast
  have 5: "\<not> hasTelugu ov \<longrightarrow> teluguFontSize (solveLayout ov) =
        max (minFontSize ov) (min (real (imgWidth ov) / 16) (real (imgHeight ov) / 12))"
    unfolding solveLayout_def measureBlocks_sizes i[symmetric]
    using fitLoop_telugu_unchanged[of ov 0 "initialLayout ov"] by blast
  show ?thesis using 1 2 3 4 5 unfolding minFontSize_def availableHeightForText_def by blast
qed

theorem fit_convergence_witness:
  "hasEnglish longBoth \<and> hasTelugu longBoth \<and>
   length (fitTrace longBoth 0 (initialLayout longBoth)) \<le> 21 \<and>
   real (imgHeight longBoth) * 0.85 < totalActualTextHeight longBoth \<and>
   englishFontSize (solveLayout longBoth) = 8 \<and>
   teluguFontSize (solveLayout longBoth) = 8 \<and>
   \<not> hasEnglish longTeluguOnly \<and>
   englishFontSize (solveLayout longTeluguOnly) = 9 \<and>
   hasEnglish smallPoster \<and> hasTelugu smallPoster \<and>
   8 \<le> englishFontSize (solveLayout smallPoster) \<and>
   8 \<le> teluguFontSize (solveLayout smallPoster)"
proof -
  have h: "hasEnglish smallPoster" "hasTelugu smallPoster"
    by (simp_all add: hasEnglish_def hasTelugu_def smallPoster_def trim_def isWhiteSpace_def)
  have w: "max 8 (real (imgWidth smallPoster) / 70) = 8"
    by (simp add: smallPoster_def)
  have s: "8 \<le> englishFontSize (solveLayout smallPoster)"
    "8 \<le> teluguFontSize (solveLayout smallPoster)"
    using fit_convergence[of smallPoster] unfolding w by blast+
  have m: "Suc maxIterations = 21" by (simp add: maxIterations_def)
  have wb: "max 8 (real (imgWidth longBoth) / 70) = 8"
    "real (imgHeight longBoth) * 0.85 = availableHeightForText longBoth"
    by (simp_all add: longBoth_def longTeluguOnly_def availableHeightForText_def)
  note lb = longBoth_overflows
  have o: "\<not> totalActualTextHeight longBoth \<le> real (imgHeight longBoth) * 0.85"
    unfolding wb(2) using lb(3) by simp
  have b: "length (fitTrace longBoth 0 (initialLayout longBoth)) \<le> 21"
    "englishFontSize (solveLayout longBoth) = 8" "teluguFontSize (solveLayout longBoth) = 8"
    using fit_convergence[of longBoth] lb(1,2) o unfolding wb(1) m by blast+
  have ne: "\<not> hasEnglish longTeluguOnly" by (simp add: hasEnglish_def longTeluguOnly_def)
  have wt: "max (max 8 (real (imgWidth longTeluguOnly) / 70))
            (min (real (imgWidth longTeluguOnly) / 18) (real (imgHeight longTeluguOnly) / 15)) = 9"
    by (simp add: longTeluguOnly_def)
  have t: "englishFontSize (solveLayout longTeluguOnly) = 9"
    using fit_convergence[of longTeluguOnly] ne unfolding wt by blast
  have o': "real (imgHeight longBoth) * 0.85 < totalActualTextHeight longBoth"
    unfolding wb(2) by (rule lb(3))
  show ?thesis using h s b ne t o' lb(1,2) by blast
qed

text \<open>
  The size of a block without text is never shrunk, so it need not reach the minimum: with
  no English text and a Telugu text that overflows at the floor, the loop ends with a total
  height above the available height while the English size is still 9, the minimum being 8.
\<close>

theorem empty_block_keeps_its_size:
  "\<not> (totalActualTextHeight longTeluguOnly \<le> availableHeightForText longTeluguOnly \<or>
      (englishFontSize (solveLayout longTeluguOnly) = minFontSize longTeluguOnly \<and>
       teluguFontSize (solveLayout longTeluguOnly) = minFontSize longTeluguOnly)) \<and>
   minFontSize longTeluguOnly = 8 \<and>
   englishFontSize (solveLayout longTeluguOnly) = 9"
proof -
  let ?ov = longTeluguOnly
  let ?r = "fitLoop ?ov 0 (initialLayout ?ov)"
  have ne: "\<not> hasEnglish ?ov" by (simp add: hasEnglish_def longTeluguOnly_def)
  have ht: "hasTelugu ?ov"
    by (simp add: hasTelugu_def longTeluguOnly_def trim_def isWhiteSpace_def)
  have m: "minFontSize ?ov = 8" by (simp add: minFontSize_def longTeluguOnly_def)
  have e: "englishFontSize (solveLayout ?ov) = 9"
    unfolding solveLayout_def measureBlocks_sizes fitLoop_english_unchanged[OF ne]
    by (simp add: initialLayout_def minFontSize_def longTeluguOnly_def)
  have z: "8 \<le> teluguFontSize ?r"
    using fitLoop_exit[OF sizesOk_initial, of ?ov] m by simp
  have W: "textMaxWidth ?ov = 153" by (simp add: textMaxWidth_def longTeluguOnly_def)
  have c: "ctxMeasureText ?ov = wideGlyphs" by (simp add: longTeluguOnly_def)
  have n: "length (teluguLines (solveLayout ?ov)) = 12"
    unfolding solveLayout_def measureBlocks_telugu(1) using ht wideGlyphs_lines[OF z] W c by simp
  have "teluguBlockHeight (solveLayout ?ov) = 12 * (teluguFontSize ?r * 1.2)"
    using n unfolding solveLayout_def measureBlocks_telugu(2) by simp
  then have t: "115.2 \<le> totalActualTextHeight ?ov"
    using z ne by (simp add: totalActualTextHeight_def totalTextHeight_def solveLayout_def measureBlocks_english)
  have a: "availableHeightForText ?ov = 114.75"
    by (simp add: availableHeightForText_def longTeluguOnly_def)
  show ?thesis using t a m e by simp
qed

section \<open>Sizes only shrink\<close>

lemma sizeStep_trans_le:
  "successively (sizeStep ov) xs \<Longrightarrow>
   sorted_wrt (\<lambda>a b. englishFontSize b \<le> englishFontSize a \<and> teluguFontSize b \<le> teluguFontSize a) xs"
proof (induction xs rule: induct_list012)
  case 1 show ?case by simp
next
  case (2 x) show ?case by simp
next
  case (3 x y zs)
  have s: "sizeStep ov x y" and r: "successively (sizeStep ov) (y # zs)" using 3(3) by simp_all
  have xy: "englishFontSize y \<le> englishFontSize x \<and> teluguFontSize y \<le> teluguFontSize x"
    using s by (simp add: sizeStep_def)
  have tl: "sorted_wrt (\<lambda>a b. englishFontSize b \<le> englishFontSize a \<and> teluguFontSize b \<le> teluguFontSize a) (y # zs)"
    by (rule 3(2)[OF r])
  then have "\<forall>z \<in> set zs. englishFontSize z \<le> englishFontSize y \<and> teluguFontSize z \<le> teluguFontSize y"
    by simp
  then have "\<forall>z \<in> set (y # zs). englishFontSize z \<le> englishFontSize x \<and> teluguFontSize z \<le> teluguFontSize x"
    using xy by auto
  then show ?case using tl by simp
qed

text \<open>
  Claim C5. Along the layouts the loop passes through, from the initial layout to the one it
  returns, every step leaves a font size unchanged or replaces it by 0.9 times itself floored
  at the minimum, the latter only for a block that has text and whose size is above the
  floor; so neither size ever increases, from any layout of the run to any later one. The
  wrap after the loop keeps both sizes.
\<close>

theorem monotonic_shrink:
  "successively (sizeStep ov) (fitTrace ov 0 (initialLayout ov)) \<and>
   sorted_wrt (\<lambda>a b. englishFontSize b \<le> englishFontSize a \<and> teluguFontSize b \<le> teluguFontSize a)
     (fitTrace ov 0 (initialLayout ov)) \<and>
   hd (fitTrace ov 0 (initialLayout ov)) = initialLayout ov \<and>
   last (fitTrace ov 0 (initialLayout ov)) = fitLoop ov 0 (initialLayout ov) \<and>
   englishFontSize (solveLayout ov) = englishFontSize (fitLoop ov 0 (initialLayout ov)) \<and>
   teluguFontSize (solveLayout ov) = teluguFontSize (fitLoop ov 0 (initialLayout ov))"
proof -
  have 1: "successively (sizeStep ov) (fitTrace ov 0 (initialLayout ov))"
    by (rule fitTrace_successively)
  show ?thesis
    using 1 sizeStep_trans_le[OF 1] fitTrace_hd[of ov 0 "initialLayout ov"]
      fitTrace_last[of ov 0 "initialLayout ov"]
    by (simp add: solveLayout_def)
qed

theorem monotonic_shrink_witness:
  "hasTelugu longTeluguOnly \<and>
   successively (sizeStep longTeluguOnly) (fitTrace longTeluguOnly 0 (initialLayout longTeluguOnly)) \<and>
   englishFontSize (initialLayout longTeluguOnly) = 9 \<and>
   teluguFontSize (initialLayout longTeluguOnly) = 11.25 \<and>
   englishFontSize (solveLayout longTeluguOnly) = englishFontSize (last (fitTrace longTeluguOnly 0 (initialLayout longTeluguOnly)))"
proof -
  have ht: "hasTelugu longTeluguOnly"
    by (simp add: hasTelugu_def longTeluguOnly_def trim_def isWhiteSpace_def)
  have i: "englishFontSize (initialLayout longTeluguOnly) = 9"
    "teluguFontSize (initialLayout longTeluguOnly) = 11.25"
    by (simp_all add: initialLayout_def minFontSize_def longTeluguOnly_def)
  show ?thesis using ht i monotonic_shrink[of longTeluguOnly] by simp
qed

section \<open>The padding between the blocks\<close>

text \<open>
  Claim C4. The padding is \<open>max 15 (0.03 * height)\<close>. When at least one text is empty or
  white space only, the total height the loop computes (after the wrap from any layout
  \<open>st\<close>) and the total the painter uses are the sum of the two block heights, without the
  padding. The total is the two block heights plus the padding exactly when neither text is
  blank and both wrapped line lists are non-empty; and when neither text is blank, both line
  lists are non-empty.
\<close>

theorem padding_conditionality:
  "interTextPadding ov = max 15 (real (imgHeight ov) * 0.03) \<and>
   (list_all isWhiteSpace (engText ov) \<or> list_all isWhiteSpace (telText ov) \<longrightarrow>
      totalTextHeight ov (measureBlocks ov st) =
        englishBlockHeight (measureBlocks ov st) + teluguBlockHeight (measureBlocks ov st) \<and>
      totalActualTextHeight ov =
        englishBlockHeight (solveLayout ov) + teluguBlockHeight (solveLayout ov)) \<and>
   ((totalTextHeight ov (measureBlocks ov st) =
       englishBlockHeight (measureBlocks ov st) + interTextPadding ov +
       teluguBlockHeight (measureBlocks ov st))
    \<longleftrightarrow> (\<not> list_all isWhiteSpace (engText ov) \<and> \<not> list_all isWhiteSpace (telText ov) \<and>
         englishLines (measureBlocks ov st) \<noteq> [] \<and> teluguLines (measureBlocks ov st) \<noteq> [])) \<and>
   ((totalActualTextHeight ov =
       englishBlockHeight (solveLayout ov) + interTextPadding ov + teluguBlockHeight (solveLayout ov))
    \<longleftrightarrow> (\<not> list_all isWhiteSpace (engText ov) \<and> \<not> list_all isWhiteSpace (telText ov) \<and>
         englishLines (solveLayout ov) \<noteq> [] \<and> teluguLines (solveLayout ov) \<noteq> [])) \<and>
   (\<not> list_all isWhiteSpace (engText ov) \<and> \<not> list_all isWhiteSpace (telText ov) \<longrightarrow>
      englishLines (measureBlocks ov st) \<noteq> [] \<and> teluguLines (measureBlocks ov st) \<noteq> [] \<and>
      englishLines (solveLayout ov) \<noteq> [] \<and> teluguLines (solveLayout ov) \<noteq> [])"
proof -
  have p: "0 < interTextPadding ov" by (simp add: interTextPadding_def)
  have g: "(list_all isWhiteSpace (engText ov) \<or> list_all isWhiteSpace (telText ov) \<longrightarrow>
      totalTextHeight ov (measureBlocks ov t) =
        englishBlockHeight (measureBlocks ov t) + teluguBlockHeight (measureBlocks ov t)) \<and>
   ((totalTextHeight ov (measureBlocks ov t) =
       englishBlockHeight (measureBlocks ov t) + interTextPadding ov +
       teluguBlockHeight (measureBlocks ov t))
    \<longleftrightarrow> (\<not> list_all isWhiteSpace (engText ov) \<and> \<not> list_all isWhiteSpace (telText ov) \<and>
         englishLines (measureBlocks ov t) \<noteq> [] \<and> teluguLines (measureBlocks ov t) \<noteq> [])) \<and>
   (\<not> list_all isWhiteSpace (engText ov) \<and> \<not> list_all isWhiteSpace (telText ov) \<longrightarrow>
      englishLines (measureBlocks ov t) \<noteq> [] \<and> teluguLines (measureBlocks ov t) \<noteq> [])" for t
    using p measured_english_lines[of ov t] measured_telugu_lines[of ov t]
    unfolding totalTextHeight_def hasEnglish_iff hasTelugu_iff
    by (cases "list_all isWhiteSpace (engText ov)"; cases "list_all isWhiteSpace (telText ov)") simp_all
  have 1: "interTextPadding ov = max 15 (real (imgHeight ov) * 0.03)"
    by (simp add: interTextPadding_def)
  show ?thesis
    using 1 g[of st] g[of "fitLoop ov 0 (initialLayout ov)"]
    unfolding totalActualTextHeight_def solveLayout_def by blast
qed

theorem padding_conditionality_witness:
  "list_all isWhiteSpace (engText longTeluguOnly) \<and>
   totalActualTextHeight longTeluguOnly =
     englishBlockHeight (solveLayout longTeluguOnly) + teluguBlockHeight (solveLayout longTeluguOnly) \<and>
   \<not> list_all isWhiteSpace (engText smallPoster) \<and> \<not> list_all isWhiteSpace (telText smallPoster) \<and>
   interTextPadding smallPoster = 15 \<and>
   totalActualTextHeight smallPoster =
     englishBlockHeight (solveLayout smallPoster) + 15 + teluguBlockHeight (solveLayout smallPoster)"
proof -
  have a: "list_all isWhiteSpace (engText longTeluguOnly)" by (simp add: longTeluguOnly_def)
  have b: "\<not> list_all isWhiteSpace (engText smallPoster)"
    "\<not> list_all isWhiteSpace (telText smallPoster)"
    by (simp_all add: smallPoster_def isWhiteSpace_def)
  have c: "interTextPadding smallPoster = 15" by (simp add: interTextPadding_def smallPoster_def)
  have 1: "totalActualTextHeight longTeluguOnly =
     englishBlockHeight (solveLayout longTeluguOnly) + teluguBlockHeight (solveLayout longTeluguOnly)"
    using a padding_conditionality[of longTeluguOnly "initialLayout longTeluguOnly"] by blast
  have 2: "totalActualTextHeight smallPoster =
     englishBlockHeight (solveLayout smallPoster) + interTextPadding smallPoster +
     teluguBlockHeight (solveLayout smallPoster)"
    using b padding_conditionality[of smallPoster "initialLayout smallPoster"] by blast
  show ?thesis using a b c 1 2 by simp
qed

section \<open>Vertical layout\<close>

lemma lineY_symmetric:
  "i < n \<Longrightarrow> lineY n c lh i + lineY n c lh (n - 1 - i) = 2 * c"
  by (simp add: lineY_def algebra_simps)

lemma drawLines_centred:
  assumes "lh = fs * 1.2" "c = y0 + real (length lines) * lh / 2"
  shows "drawLines f lw lines x c lh = centredBlock f lw lines x y0 fs"
  unfolding assms by (simp add: drawLines_def centredBlock_def lineY_def Let_def)

lemma drawLines_Nil: "drawLines f lw [] x c lh = []" "centredBlock f lw [] x y0 fs = []"
  by (simp_all add: drawLines_def centredBlock_def)

lemma paintText_measured:
  fixes ov r
  defines "st \<equiv> measureBlocks ov r"
  shows "paintText ov st =
     centredBlock (BoldPx (englishFontSize st) InterArialSansSerif)
       (max 1 (min 4 (englishFontSize st / 18))) (englishLines st) (real (imgWidth ov) / 2)
       ((real (imgHeight ov) - totalTextHeight ov st) / 2) (englishFontSize st)
     @ centredBlock (BoldPx (teluguFontSize st) NotoSansTeluguSansSerif)
       (max 1 (min 4 (teluguFontSize st / 18))) (teluguLines st) (real (imgWidth ov) / 2)
       ((real (imgHeight ov) - totalTextHeight ov st) / 2 + englishBlockHeight st +
        (if englishLines st \<noteq> [] \<and> teluguLines st \<noteq> [] then interTextPadding ov else 0))
       (teluguFontSize st)"
proof -
  let ?Y0 = "(real (imgHeight ov) - totalTextHeight ov st) / 2"
  let ?fE = "BoldPx (englishFontSize st) InterArialSansSerif"
  let ?fT = "BoldPx (teluguFontSize st) NotoSansTeluguSansSerif"
  let ?wE = "max 1 (min 4 (englishFontSize st / 18))"
  let ?wT = "max 1 (min 4 (teluguFontSize st / 18))"
  let ?x = "real (imgWidth ov) / 2"
  have e: "englishLines st \<noteq> [] \<longleftrightarrow> hasEnglish ov" "teluguLines st \<noteq> [] \<longleftrightarrow> hasTelugu ov"
    unfolding st_def by (rule measured_english_lines measured_telugu_lines)+
  have hE: "englishLineHeight st = englishFontSize st * 1.2"
    and hT: "teluguLineHeight st = teluguFontSize st * 1.2"
    and bE: "englishBlockHeight st = real (length (englishLines st)) * englishLineHeight st"
    and bT: "teluguBlockHeight st = real (length (teluguLines st)) * teluguLineHeight st"
    unfolding st_def by (simp_all add: measureBlocks_english measureBlocks_telugu)
  have cE: "drawLines ?fE ?wE (englishLines st) ?x (?Y0 + englishBlockHeight st / 2)
              (englishLineHeight st)
            = centredBlock ?fE ?wE (englishLines st) ?x ?Y0 (englishFontSize st)"
    by (rule drawLines_centred[OF hE]) (simp add: bE)
  have cT: "drawLines ?fT ?wT (teluguLines st) ?x (y0 + teluguBlockHeight st / 2)
              (teluguLineHeight st)
            = centredBlock ?fT ?wT (teluguLines st) ?x y0 (teluguFontSize st)" for y0
    by (rule drawLines_centred[OF hT]) (simp add: bT)
  show ?thesis
  proof (cases "hasEnglish ov"; cases "hasTelugu ov")
    assume a: "hasEnglish ov" "hasTelugu ov"
    then have n: "englishLines st \<noteq> []" "teluguLines st \<noteq> []" using e by simp_all
    have "paintText ov st =
        drawLines ?fE ?wE (englishLines st) ?x (?Y0 + englishBlockHeight st / 2) (englishLineHeight st)
      @ drawLines ?fT ?wT (teluguLines st) ?x
          (?Y0 + englishBlockHeight st / 2 + englishBlockHeight st / 2 + interTextPadding ov +
           teluguBlockHeight st / 2) (teluguLineHeight st)"
      using a n by (simp add: paintText_def Let_def textX_def)
    also have "?Y0 + englishBlockHeight st / 2 + englishBlockHeight st / 2 + interTextPadding ov +
           teluguBlockHeight st / 2
         = (?Y0 + englishBlockHeight st + interTextPadding ov) + teluguBlockHeight st / 2"
      by simp
    finally show ?thesis unfolding cE cT using n by simp
  next
    assume a: "hasEnglish ov" "\<not> hasTelugu ov"
    then have n: "englishLines st \<noteq> []" "teluguLines st = []" using e by simp_all
    have "paintText ov st =
        drawLines ?fE ?wE (englishLines st) ?x (?Y0 + englishBlockHeight st / 2) (englishLineHeight st)"
      using a n by (simp add: paintText_def Let_def textX_def)
    then show ?thesis unfolding cE using n by (simp add: drawLines_Nil)
  next
    assume a: "\<not> hasEnglish ov" "hasTelugu ov"
    then have n: "englishLines st = []" "teluguLines st \<noteq> []" using e by simp_all
    have z: "englishBlockHeight st = 0" using n bE by simp
    have "paintText ov st =
        drawLines ?fT ?wT (teluguLines st) ?x (?Y0 + teluguBlockHeight st / 2) (teluguLineHeight st)"
      using a n by (simp add: paintText_def Let_def textX_def)
    then show ?thesis unfolding cT using n z by (simp add: drawLines_Nil)
  next
    assume a: "\<not> hasEnglish ov" "\<not> hasTelugu ov"
    then have n: "englishLines st = []" "teluguLines st = []" using e by simp_all
    show ?thesis using a n by (simp add: paintText_def Let_def drawLines_Nil)
  qed
qed

text \<open>
  Claim C3. The painter draws the background, then the text as a vertically centred stack.
  With the total text height being the two block heights plus the padding when both blocks
  have lines, the stack starts at \<open>(canvasHeight - totalTextHeight) / 2\<close>. The English
  block is drawn first, with its top edge there; the Telugu block follows with its top edge
  below the English block by the block's height, plus the padding when both blocks have
  lines. Within a block the lines, of height 1.2 times the font size, lie symmetrically
  around the block's vertical centre: lines \<open>i\<close> and \<open>n - 1 - i\<close> are at equal distance
  on either side of it. A block without text has no lines and no height.
\<close>

theorem vertical_centering:
  "drawn (composeCanvas url ov) = DrawImage url # paintText ov (solveLayout ov) \<and>
   paintText ov (solveLayout ov) =
     centredBlock (BoldPx (englishFontSize (solveLayout ov)) InterArialSansSerif)
       (max 1 (min 4 (englishFontSize (solveLayout ov) / 18))) (englishLines (solveLayout ov))
       (real (imgWidth ov) / 2)
       ((real (imgHeight ov) - totalActualTextHeight ov) / 2)
       (englishFontSize (solveLayout ov))
     @ centredBlock (BoldPx (teluguFontSize (solveLayout ov)) NotoSansTeluguSansSerif)
       (max 1 (min 4 (teluguFontSize (solveLayout ov) / 18))) (teluguLines (solveLayout ov))
       (real (imgWidth ov) / 2)
       ((real (imgHeight ov) - totalActualTextHeight ov) / 2 + englishBlockHeight (solveLayout ov) +
        (if englishLines (solveLayout ov) \<noteq> [] \<and> teluguLines (solveLayout ov) \<noteq> []
         then interTextPadding ov else 0))
       (teluguFontSize (solveLayout ov)) \<and>
   totalActualTextHeight ov =
     englishBlockHeight (solveLayout ov) +
     (if englishLines (solveLayout ov) \<noteq> [] \<and> teluguLines (solveLayout ov) \<noteq> []
      then interTextPadding ov else 0) +
     teluguBlockHeight (solveLayout ov) \<and>
   englishBlockHeight (solveLayout ov) =
     real (length (englishLines (solveLayout ov))) * (englishFontSize (solveLayout ov) * 1.2) \<and>
   teluguBlockHeight (solveLayout ov) =
     real (length (teluguLines (solveLayout ov))) * (teluguFontSize (solveLayout ov) * 1.2) \<and>
   (\<forall>i < n. lineY n c lh i + lineY n c lh (n - 1 - i) = 2 * c)"
proof -
  let ?r = "fitLoop ov 0 (initialLayout ov)"
  have 1: "drawn (composeCanvas url ov) = DrawImage url # paintText ov (solveLayout ov)"
    by (simp add: composeCanvas_def)
  have 2: "paintText ov (solveLayout ov) =
     centredBlock (BoldPx (englishFontSize (solveLayout ov)) InterArialSansSerif)
       (max 1 (min 4 (englishFontSize (solveLayout ov) / 18))) (englishLines (solveLayout ov))
       (real (imgWidth ov) / 2)
       ((real (imgHeight ov) - totalActualTextHeight ov) / 2)
       (englishFontSize (solveLayout ov))
     @ centredBlock (BoldPx (teluguFontSize (solveLayout ov)) NotoSansTeluguSansSerif)
       (max 1 (min 4 (teluguFontSize (solveLayout ov) / 18))) (teluguLines (solveLayout ov))
       (real (imgWidth ov) / 2)
       ((real (imgHeight ov) - totalActualTextHeight ov) / 2 + englishBlockHeight (solveLayout ov) +
        (if englishLines (solveLayout ov) \<noteq> [] \<and> teluguLines (solveLayout ov) \<noteq> []
         then interTextPadding ov else 0))
       (teluguFontSize (solveLayout ov))"
    unfolding totalActualTextHeight_def solveLayout_def by (rule paintText_measured)
  have 3: "totalActualTextHeight ov =
     englishBlockHeight (solveLayout ov) +
     (if englishLines (solveLayout ov) \<noteq> [] \<and> teluguLines (solveLayout ov) \<noteq> []
      then interTextPadding ov else 0) +
     teluguBlockHeight (solveLayout ov)"
    unfolding totalActualTextHeight_def solveLayout_def totalTextHeight_def
    using measured_english_lines[of ov ?r] measured_telugu_lines[of ov ?r] by auto
  have 4: "englishBlockHeight (solveLayout ov) =
     real (length (englishLines (solveLayout ov))) * (englishFontSize (solveLayout ov) * 1.2)"
    "teluguBlockHeight (solveLayout ov) =
     real (length (teluguLines (solveLayout ov))) * (teluguFontSize (solveLayout ov) * 1.2)"
    unfolding solveLayout_def by (simp_all add: measureBlocks_english(2) measureBlocks_telugu(2))
  have 5: "\<forall>i < n. lineY n c lh i + lineY n c lh (n - 1 - i) = 2 * c"
    using lineY_symmetric by blast
  show ?thesis using 1 2 3 4 5 by blast
qed

text \<open>The settled layout of the sample poster: the first iteration already fits.\<close>

lemma solveLayout_smallPoster:
  "solveLayout smallPoster =
     \<lparr> englishFontSize = 12, teluguFontSize = 15,
       englishLines = [[72, 105, 32, 97, 108, 108]], teluguLines = [[97, 98, 32, 99, 100]],
       englishLineHeight = 72 / 5, teluguLineHeight = 18,
       englishBlockHeight = 72 / 5, teluguBlockHeight = 18, warned = False \<rparr>"
  by (simp add: solveLayout_def fitLoop.simps loopBody_def measureBlocks_def Let_def
      totalTextHeight_def initialLayout_def smallPoster_def hasEnglish_def hasTelugu_def trim_def
      isWhiteSpace_def wrapText_def space_def textMaxWidth_def minFontSize_def
      availableHeightForText_def interTextPadding_def maxIterations_def)

theorem vertical_centering_witness:
  "totalActualTextHeight smallPoster = 47.4 \<and>
   paintText smallPoster (solveLayout smallPoster) =
     [StrokeText (BoldPx 12 InterArialSansSerif) 1 [72, 105, 32, 97, 108, 108] 160 73.5,
      FillText (BoldPx 12 InterArialSansSerif) [72, 105, 32, 97, 108, 108] 160 73.5,
      StrokeText (BoldPx 15 NotoSansTeluguSansSerif) 1 [97, 98, 32, 99, 100] 160 104.7,
      FillText (BoldPx 15 NotoSansTeluguSansSerif) [97, 98, 32, 99, 100] 160 104.7] \<and>
   lineY 3 50 12 0 + lineY 3 50 12 2 = 100"
proof -
  have p: "interTextPadding smallPoster = 15" "real (imgWidth smallPoster) = 320"
    "real (imgHeight smallPoster) = 180"
    by (simp_all add: interTextPadding_def smallPoster_def)
  note v = vertical_centering[of "[]" smallPoster 3 50 12]
  have t: "totalActualTextHeight smallPoster = 47.4"
    using v unfolding solveLayout_smallPoster p by simp
  have d: "paintText smallPoster (solveLayout smallPoster) =
     [StrokeText (BoldPx 12 InterArialSansSerif) 1 [72, 105, 32, 97, 108, 108] 160 73.5,
      FillText (BoldPx 12 InterArialSansSerif) [72, 105, 32, 97, 108, 108] 160 73.5,
      StrokeText (BoldPx 15 NotoSansTeluguSansSerif) 1 [97, 98, 32, 99, 100] 160 104.7,
      FillText (BoldPx 15 NotoSansTeluguSansSerif) [97, 98, 32, 99, 100] 160 104.7]"
    using v unfolding t p solveLayout_smallPoster
    by (simp add: centredBlock_def lineY_def Let_def)
  have l0: "\<forall>i < (3::nat). lineY 3 50 12 i + lineY 3 50 12 (3 - 1 - i) = 2 * 50"
    using v by blast
  have l: "lineY 3 50 12 0 + lineY 3 50 12 2 = 100" using l0[rule_format, of 0] by simp
  show ?thesis using t d l by blast
qed

section \<open>Settling the promise\<close>

text \<open>What is painted on the sample poster: one English and one Telugu line, centred.\<close>

lemma paintText_smallPoster:
  "paintText smallPoster (solveLayout smallPoster) =
     [StrokeText (BoldPx 12 InterArialSansSerif) 1 [72, 105, 32, 97, 108, 108] 160 73.5,
      FillText (BoldPx 12 InterArialSansSerif) [72, 105, 32, 97, 108, 108] 160 73.5,
      StrokeText (BoldPx 15 NotoSansTeluguSansSerif) 1 [97, 98, 32, 99, 100] 160 104.7,
      FillText (BoldPx 15 NotoSansTeluguSansSerif) [97, 98, 32, 99, 100] 160 104.7]"
proof -
  have h: "hasEnglish smallPoster" "hasTelugu smallPoster"
    by (simp_all add: hasEnglish_def hasTelugu_def smallPoster_def trim_def isWhiteSpace_def)
  have p: "interTextPadding smallPoster = 15" "textX smallPoster = 160"
    "real (imgHeight smallPoster) = 180"
    by (simp_all add: interTextPadding_def textX_def smallPoster_def)
  show ?thesis
    unfolding solveLayout_smallPoster
    using h p by (simp add: paintText_def totalTextHeight_def drawLines_def Let_def)
qed

text \<open>
  Claim C6, amended. \<^verbatim>\<open>drawImageWithTextOverlay\<close> rejects exactly when the canvas ref is
  empty, the 2D context cannot be obtained, or the image element calls \<^verbatim>\<open>onerror\<close>, each
  with its own error. It resolves exactly when canvas and context exist and the image
  element calls \<^verbatim>\<open>onload\<close>, and then with the PNG encoding of a canvas that has the pixel
  size of the image and holds the background image followed by the text painted from the
  settled layout. When canvas and context exist and the image element calls neither handler,
  the promise stays pending. Whether it rejects does not depend on the two texts: no text,
  however long, causes a rejection.
\<close>

theorem overlay_settles:
  "((\<exists>e. drawImageWithTextOverlay br url eng tel = Rejected e) \<longleftrightarrow>
      canvasRef br = None \<or> (\<exists>c. canvasRef br = Some c \<and> getContext2d c = None) \<or>
      imageEvent br url = OnError) \<and>
   (canvasRef br = None \<longrightarrow>
      drawImageWithTextOverlay br url eng tel = Rejected CanvasElementNotFound) \<and>
   (\<forall>c. canvasRef br = Some c \<and> getContext2d c = None \<longrightarrow>
      drawImageWithTextOverlay br url eng tel = Rejected FailedToGetCanvasContext) \<and>
   (\<forall>c ctx. canvasRef br = Some c \<and> getContext2d c = Some ctx \<and> imageEvent br url = OnError \<longrightarrow>
      drawImageWithTextOverlay br url eng tel = Rejected FailedToLoadBaseImage) \<and>
   (\<forall>c ctx w h. canvasRef br = Some c \<and> getContext2d c = Some ctx \<and> imageEvent br url = OnLoad w h \<longrightarrow>
      drawImageWithTextOverlay br url eng tel =
        Resolved (toDataURL c
          \<lparr> canvasWidth = w, canvasHeight = h,
            drawn = DrawImage url #
              paintText
                \<lparr> engText = eng, telText = tel, imgWidth = w, imgHeight = h, ctxMeasureText = ctx \<rparr>
                (solveLayout
                  \<lparr> engText = eng, telText = tel, imgWidth = w, imgHeight = h,
                    ctxMeasureText = ctx \<rparr>) \<rparr>)) \<and>
   ((\<exists>d. drawImageWithTextOverlay br url eng tel = Resolved d) \<longleftrightarrow>
      (\<exists>c ctx w h. canvasRef br = Some c \<and> getContext2d c = Some ctx \<and>
         imageEvent br url = OnLoad w h)) \<and>
   (\<forall>c ctx. canvasRef br = Some c \<and> getContext2d c = Some ctx \<and> imageEvent br url = NoEvent \<longrightarrow>
      drawImageWithTextOverlay br url eng tel = Pending) \<and>
   ((\<exists>e. drawImageWithTextOverlay br url eng tel = Rejected e) \<longleftrightarrow>
    (\<exists>e. drawImageWithTextOverlay br url eng' tel' = Rejected e))"
proof -
  have rej: "(\<exists>e. drawImageWithTextOverlay br url a b = Rejected e) \<longleftrightarrow>
      canvasRef br = None \<or> (\<exists>c. canvasRef br = Some c \<and> getContext2d c = None) \<or>
      imageEvent br url = OnError" for a b
    by (auto simp: drawImageWithTextOverlay_def split: option.splits imageEvent.splits)
  have 2: "canvasRef br = None \<longrightarrow>
      drawImageWithTextOverlay br url eng tel = Rejected CanvasElementNotFound"
    by (simp add: drawImageWithTextOverlay_def)
  have 3: "\<forall>c. canvasRef br = Some c \<and> getContext2d c = None \<longrightarrow>
      drawImageWithTextOverlay br url eng tel = Rejected FailedToGetCanvasContext"
    by (simp add: drawImageWithTextOverlay_def)
  have 4: "\<forall>c ctx. canvasRef br = Some c \<and> getContext2d c = Some ctx \<and> imageEvent br url = OnError \<longrightarrow>
      drawImageWithTextOverlay br url eng tel = Rejected FailedToLoadBaseImage"
    by (simp add: drawImageWithTextOverlay_def)
  have 5: "\<forall>c ctx w h. canvasRef br = Some c \<and> getContext2d c = Some ctx \<and> imageEvent br url = OnLoad w h \<longrightarrow>
      drawImageWithTextOverlay br url eng tel =
        Resolved (toDataURL c
          \<lparr> canvasWidth = w, canvasHeight = h,
            drawn = DrawImage url #
              paintText
                \<lparr> engText = eng, telText = tel, imgWidth = w, imgHeight = h, ctxMeasureText = ctx \<rparr>
                (solveLayout
                  \<lparr> engText = eng, telText = tel, imgWidth = w, imgHeight = h,
                    ctxMeasureText = ctx \<rparr>) \<rparr>)"
    by (simp add: drawImageWithTextOverlay_def composeCanvas_def)
  have 6: "(\<exists>d. drawImageWithTextOverlay br url eng tel = Resolved d) \<longleftrightarrow>
      (\<exists>c ctx w h. canvasRef br = Some c \<and> getContext2d c = Some ctx \<and>
         imageEvent br url = OnLoad w h)"
    by (auto simp: drawImageWithTextOverlay_def split: option.splits imageEvent.splits)
  have 7: "\<forall>c ctx. canvasRef br = Some c \<and> getContext2d c = Some ctx \<and> imageEvent br url = NoEvent \<longrightarrow>
      drawImageWithTextOverlay br url eng tel = Pending"
    by (simp add: drawImageWithTextOverlay_def)
  have 8: "(\<exists>e. drawImageWithTextOverlay br url eng tel = Rejected e) \<longleftrightarrow>
    (\<exists>e. drawImageWithTextOverlay br url eng' tel' = Rejected e)"
    unfolding rej ..
  show ?thesis using rej[of eng tel] 2 3 4 5 6 7 8 by blast
qed

theorem overlay_settles_witness:
  "canvasRef sampleBrowser = Some sampleCanvas \<and> getContext2d sampleCanvas = Some fixedPitch \<and>
   imageEvent sampleBrowser [] = OnLoad 320 180 \<and>
   drawImageWithTextOverlay sampleBrowser [] (engText smallPoster) (telText smallPoster) =
     Resolved (toDataURL sampleCanvas
       \<lparr> canvasWidth = 320, canvasHeight = 180,
         drawn =
           [DrawImage [],
            StrokeText (BoldPx 12 InterArialSansSerif) 1 [72, 105, 32, 97, 108, 108] 160 73.5,
            FillText (BoldPx 12 InterArialSansSerif) [72, 105, 32, 97, 108, 108] 160 73.5,
            StrokeText (BoldPx 15 NotoSansTeluguSansSerif) 1 [97, 98, 32, 99, 100] 160 104.7,
            FillText (BoldPx 15 NotoSansTeluguSansSerif) [97, 98, 32, 99, 100] 160 104.7] \<rparr>) \<and>
   canvasRef (sampleBrowser\<lparr> canvasRef := None \<rparr>) = None \<and>
   drawImageWithTextOverlay (sampleBrowser\<lparr> canvasRef := None \<rparr>) [] [] [] =
     Rejected CanvasElementNotFound \<and>
   imageEvent hungBrowser [] = NoEvent \<and>
   drawImageWithTextOverlay hungBrowser [] [] [] = Pending"
proof -
  have a: "canvasRef sampleBrowser = Some sampleCanvas" "getContext2d sampleCanvas = Some fixedPitch"
    "imageEvent sampleBrowser [] = OnLoad 320 180"
    by (simp_all add: sampleBrowser_def sampleCanvas_def loads320x180_def)
  have s: "\<lparr> engText = engText smallPoster, telText = telText smallPoster, imgWidth = 320,
             imgHeight = 180, ctxMeasureText = fixedPitch \<rparr> = smallPoster"
    by (simp add: smallPoster_def)
  have r0: "drawImageWithTextOverlay sampleBrowser [] (engText smallPoster) (telText smallPoster) =
     Resolved (toDataURL sampleCanvas
       \<lparr> canvasWidth = 320, canvasHeight = 180,
         drawn = DrawImage [] #
           paintText
             \<lparr> engText = engText smallPoster, telText = telText smallPoster, imgWidth = 320,
               imgHeight = 180, ctxMeasureText = fixedPitch \<rparr>
             (solveLayout
               \<lparr> engText = engText smallPoster, telText = telText smallPoster, imgWidth = 320,
                 imgHeight = 180, ctxMeasureText = fixedPitch \<rparr>) \<rparr>)"
    using a overlay_settles[of sampleBrowser "[]" "engText smallPoster" "telText smallPoster"]
    by blast
  have r: "drawImageWithTextOverlay sampleBrowser [] (engText smallPoster) (telText smallPoster) =
     Resolved (toDataURL sampleCanvas
       \<lparr> canvasWidth = 320, canvasHeight = 180,
         drawn =
           [DrawImage [],
            StrokeText (BoldPx 12 InterArialSansSerif) 1 [72, 105, 32, 97, 108, 108] 160 73.5,
            FillText (BoldPx 12 InterArialSansSerif) [72, 105, 32, 97, 108, 108] 160 73.5,
            StrokeText (BoldPx 15 NotoSansTeluguSansSerif) 1 [97, 98, 32, 99, 100] 160 104.7,
            FillText (BoldPx 15 NotoSansTeluguSansSerif) [97, 98, 32, 99, 100] 160 104.7] \<rparr>)"
    using r0 unfolding s paintText_smallPoster .
  have n: "canvasRef (sampleBrowser\<lparr> canvasRef := None \<rparr>) = None" by simp
  have q: "drawImageWithTextOverlay (sampleBrowser\<lparr> canvasRef := None \<rparr>) [] [] [] =
     Rejected CanvasElementNotFound"
    using n overlay_settles[of "sampleBrowser\<lparr> canvasRef := None \<rparr>" "[]" "[]" "[]"] by blast
  have b: "canvasRef hungBrowser = Some sampleCanvas" "imageEvent hungBrowser [] = NoEvent"
    by (simp_all add: hungBrowser_def neverFires_def)
  have g: "drawImageWithTextOverlay hungBrowser [] [] [] = Pending"
    using b a(2) overlay_settles[of hungBrowser "[]" "[]" "[]"] by blast
  show ?thesis using a r n q b(2) g by blast
qed

text \<open>
  So the promise need not settle: with canvas and context present and an image element that
  calls neither handler, none of the three causes of rejection holds, and yet the promise
  is not resolved but pending.
\<close>

theorem pending_load_never_settles:
  "canvasRef hungBrowser = Some sampleCanvas \<and> getContext2d sampleCanvas = Some fixedPitch \<and>
   imageEvent hungBrowser [] = NoEvent \<and> imageEvent hungBrowser [] \<noteq> OnError \<and>
   drawImageWithTextOverlay hungBrowser [] (engText smallPoster) (telText smallPoster) = Pending"
  by (simp add: drawImageWithTextOverlay_def hungBrowser_def sampleCanvas_def neverFires_def)

section \<open>The language constraint\<close>




end
